theory Spec2Isabelle
  imports Complex_Main
begin

section \<open>Parallel block transfers of blob/lib/highlevel.node.ts\<close>

text \<open>
  The development embeds the three transfer functions of
  \<^verbatim>\<open>blob/lib/highlevel.node.ts\<close>:
  \<^verbatim>\<open>UploadResetableStreamToBlockBlob\<close> (called by \<^verbatim>\<open>UploadFileToBlockBlob\<close>),
  \<^verbatim>\<open>DownloadBlobToBuffer\<close> and \<^verbatim>\<open>UploadStreamToBlockBlob\<close>.

  JavaScript numbers that hold byte counts are integers (\<open>int\<close>); the two divisions
  \<^verbatim>\<open>Math.ceil(size / BLOCK_BLOB_MAX_BLOCKS)\<close> and
  \<^verbatim>\<open>Math.floor((size - 1) / options.blockSize)\<close> are the ceiling and the floor of the
  exact quotient (the rounding of the floating-point quotient is not modelled).
  An absent property (\<^verbatim>\<open>undefined\<close>) is \<open>None\<close>. A thrown \<^verbatim>\<open>Error\<close>, and a rejected
  promise, is the left summand of the result.
\<close>

subsection \<open>Data\<close>

datatype error =
    BlockSizeOutOfRange
  | SizeTooLarge int
  | TooManyBlocks
  | BlockSizeNegative
  | OffsetNegative
  | CountNegative
  | ResolvedCountNegative int
  | BufferTooSmall int
  | RemoteError string
  | CallbackError string

text \<open>
  The four constants imported from \<^verbatim>\<open>utils/constants\<close>; that file is not among the
  sources, so the functions take the constants as a parameter. \<open>DEFAULT_CONCURRENCY\<close> is
  the cap of a \<^verbatim>\<open>Batch\<close> built from an absent \<^verbatim>\<open>options.parallelism\<close>.
\<close>

record constants =
  BLOB_DEFAULT_DOWNLOAD_BLOCK_BYTES :: int
  BLOCK_BLOB_MAX_BLOCKS :: int
  BLOCK_BLOB_MAX_STAGE_BLOCK_BYTES :: int
  BLOCK_BLOB_MAX_UPLOAD_BLOB_BYTES :: int
  DEFAULT_CONCURRENCY :: nat

text \<open>
  The values the storage service documents: 4MB, 50000 blocks, 100MB per staged block,
  256MB per single upload call (the last is the figure in the doc comment of
  \<^verbatim>\<open>UploadFileToBlockBlob\<close>). They are used to evaluate the functions at concrete inputs.
\<close>

definition service_constants :: constants where
  "service_constants =
     \<lparr> BLOB_DEFAULT_DOWNLOAD_BLOCK_BYTES = 4 * 1024 * 1024,
       BLOCK_BLOB_MAX_BLOCKS = 50000,
       BLOCK_BLOB_MAX_STAGE_BLOCK_BYTES = 100 * 1024 * 1024,
       BLOCK_BLOB_MAX_UPLOAD_BLOB_BYTES = 256 * 1024 * 1024,
       DEFAULT_CONCURRENCY = 5 \<rparr>"

type_synonym BlobHTTPHeaders = "(string \<times> string) list"

record IBlobAccessConditions =
  modifiedAccessConditions :: "string option"
  leaseAccessConditions :: "string option"

definition empty_conditions :: IBlobAccessConditions where
  "empty_conditions = \<lparr> modifiedAccessConditions = None, leaseAccessConditions = None \<rparr>"

record TransferProgressEvent =
  loadedBytes :: int
  totalBytes :: "int option"

text \<open>
  The option objects, with the properties the functions read. \<open>progress\<close> tells whether
  the caller supplied a progress callback; the calls of the callback are the \<open>events\<close> of
  the transfer state below. The properties of the download options carry the prefix
  \<open>dl_\<close>, those of the stream upload options the prefix \<open>st_\<close>.
\<close>

record IUploadToBlockBlobOptions =
  blockSize :: "int option"
  parallelism :: "nat option"
  progress :: bool
  blobHTTPHeaders :: "BlobHTTPHeaders option"
  blobAccessConditions :: "IBlobAccessConditions option"

record IDownloadFromBlobOptions =
  dl_blockSize :: "int option"
  dl_parallelism :: "nat option"
  dl_progress :: bool
  dl_blobAccessConditions :: "IBlobAccessConditions option"

record IUploadStreamToBlockBlobOptions =
  st_blobHTTPHeaders :: "BlobHTTPHeaders option"
  st_accessConditions :: "IBlobAccessConditions option"
  st_progress :: bool

text \<open>
  The parameter \<open>sz\<close> of the functions is the source's \<^verbatim>\<open>size\<close>.

  The remote operations are the environment: how the single upload, the \<open>k\<close>-th
  \<^verbatim>\<open>stageBlock\<close>, the commit, the metadata fetch (its \<^verbatim>\<open>content-length\<close>) and the
  \<open>k\<close>-th ranged read (with the copy of its stream into the buffer) settle. A remote
  operation fails with a message, which reaches the caller as \<open>RemoteError\<close>.

  The progress callback is code of the caller and belongs to the environment too:
  \<open>progress_result\<close> tells, from the events the callback has been called with so far
  (the last one being the current call), whether the call returns (\<open>None\<close>) or throws
  (\<open>Some\<close>, which reaches the caller as \<open>CallbackError\<close>).
\<close>

record ('id, 'r) remote =
  upload_result :: "string + 'r"
  stageBlock_result :: "nat \<Rightarrow> string option"
  commitBlockList_result :: "'id list \<Rightarrow> string + 'r"
  getProperties_result :: "string + int"
  download_result :: "nat \<Rightarrow> string option"
  progress_result :: "TransferProgressEvent list \<Rightarrow> string option"

definition rejected :: "string + 'a \<Rightarrow> error + 'a" where
  "rejected r = (case r of Inl m \<Rightarrow> Inl (RemoteError m) | Inr v \<Rightarrow> Inr v)"

datatype 'id call =
    Upload int
  | StageBlock 'id int int
  | CommitBlockList "'id list"
  | GetProperties
  | Download int int

text \<open>
  The variables the chunk tasks share (\<^verbatim>\<open>blockList\<close>, \<^verbatim>\<open>blockNum\<close>,
  \<^verbatim>\<open>transferProgress\<close>), and what an observer sees: the calls of the progress callback,
  the remote calls in the order they are issued, and the regions of the destination
  buffer handed to \<^verbatim>\<open>streamToBuffer\<close> (start, exclusive end).
\<close>

record 'id transfer =
  blockList :: "'id list"
  blockNum :: nat
  transferProgress :: int
  events :: "TransferProgressEvent list"
  calls :: "'id call list"
  regions :: "(int \<times> int) list"

definition initial :: "'id transfer" where
  "initial = \<lparr> blockList = [], blockNum = 0, transferProgress = 0, events = [],
               calls = [], regions = [] \<rparr>"

record ('id, 'r, 'o) outcome =
  result :: "error + 'r"
  options_after :: 'o
  final :: "'id transfer"

subsection \<open>Batch\<close>

text \<open>
  Modelled from the spec: \<^verbatim>\<open>utils/Batch.ts\<close> is not among the sources. The spec's Batch
  Executor keeps a cursor into the operations, keeps at most \<open>concurrencyLimit\<close> of them
  active, starts the next pending one as soon as an active one finishes, stops starting
  after a failure, lets the started ones drain and returns the first failure.

  An operation is an async closure with one awaited remote call: \<open>begin_op\<close> is what it
  does to the shared variables up to the \<^verbatim>\<open>await\<close> (it runs when the operation is
  started), \<open>settles\<close> is how the awaited call settles, \<open>resume_op\<close> is the rest of the
  body, run when the call has succeeded: it gives the shared variables afterwards and
  the error, if the rest of the body throws (the operation has then failed, like one
  whose awaited call fails). JavaScript runs each of the two parts without
  interruption. The order in which the active operations settle is the schedule: a list
  of operation indices.
\<close>

record 'st operation =
  begin_op :: "'st \<Rightarrow> 'st"
  settles :: "error option"
  resume_op :: "'st \<Rightarrow> 'st \<times> error option"

record 'st Batch =
  concurrencyLimit :: nat
  cursor :: nat
  active :: "nat list"
  firstError :: "error option"
  shared :: 'st

definition startable :: "'st operation list \<Rightarrow> 'st Batch \<Rightarrow> bool" where
  "startable ops b \<longleftrightarrow>
     firstError b = None \<and> cursor b < length ops \<and> length (active b) < concurrencyLimit b"

definition start_next :: "'st operation list \<Rightarrow> 'st Batch \<Rightarrow> 'st Batch" where
  "start_next ops b =
     b\<lparr> cursor := cursor b + 1,
        active := active b @ [cursor b],
        shared := begin_op (ops ! cursor b) (shared b) \<rparr>"

function fill :: "'st operation list \<Rightarrow> 'st Batch \<Rightarrow> 'st Batch" where
  "fill ops b = (if startable ops b then fill ops (start_next ops b) else b)"
  by pat_completeness auto
termination
  by (relation "measure (\<lambda>(ops, b). length ops - cursor b)")
     (auto simp: startable_def start_next_def)

definition fail :: "error \<Rightarrow> 'st Batch \<Rightarrow> 'st Batch" where
  "fail e b =
     b\<lparr> firstError := (case firstError b of None \<Rightarrow> Some e | Some e0 \<Rightarrow> Some e0) \<rparr>"

definition finish :: "'st operation list \<Rightarrow> nat \<Rightarrow> 'st Batch \<Rightarrow> 'st Batch" where
  "finish ops i b =
     (case settles (ops ! i) of
        None \<Rightarrow>
          (case resume_op (ops ! i) (shared b) of
             (st, None) \<Rightarrow> b\<lparr> active := remove1 i (active b), shared := st \<rparr>
           | (st, Some e) \<Rightarrow> fail e (b\<lparr> active := remove1 i (active b), shared := st \<rparr>))
      | Some e \<Rightarrow> fail e (b\<lparr> active := remove1 i (active b) \<rparr>))"

definition settle :: "'st operation list \<Rightarrow> nat \<Rightarrow> 'st Batch \<Rightarrow> 'st Batch option" where
  "settle ops i b =
     (if i \<in> set (active b) then Some (fill ops (finish ops i b)) else None)"

fun run :: "'st operation list \<Rightarrow> nat list \<Rightarrow> 'st Batch \<Rightarrow> 'st Batch option" where
  "run ops [] b = Some b"
| "run ops (i # order) b =
     (case settle ops i b of None \<Rightarrow> None | Some b' \<Rightarrow> run ops order b')"

definition finished :: "'st operation list \<Rightarrow> 'st Batch \<Rightarrow> bool" where
  "finished ops b \<longleftrightarrow> active b = [] \<and> (firstError b \<noteq> None \<or> cursor b = length ops)"

text \<open>
  \<^verbatim>\<open>batch.do()\<close> under a schedule: \<open>None\<close> when the schedule is not a complete run (it
  names an operation that is not active, or it ends before the batch has finished);
  otherwise the first failure, if any, and the shared variables.
\<close>

definition Batch_start :: "nat \<Rightarrow> 'st operation list \<Rightarrow> 'st \<Rightarrow> 'st Batch" where
  "Batch_start limit ops st =
     fill ops \<lparr> concurrencyLimit = limit, cursor = 0, active = [],
                firstError = None, shared = st \<rparr>"

definition Batch_do ::
  "nat \<Rightarrow> 'st operation list \<Rightarrow> nat list \<Rightarrow> 'st \<Rightarrow> (error option \<times> 'st) option" where
  "Batch_do limit ops order st =
     (case run ops order (Batch_start limit ops st) of
        None \<Rightarrow> None
      | Some b \<Rightarrow> if finished ops b then Some (firstError b, shared b) else None)"

text \<open>
  Two notions for reasoning about a batch: the operations that have run to their end
  (started, no longer active, the awaited call succeeded), and the bookkeeping that
  every reachable state of a batch satisfies.
\<close>

definition completed :: "'st operation list \<Rightarrow> 'st Batch \<Rightarrow> nat set" where
  "completed ops b = {i. i < cursor b \<and> i \<notin> set (active b) \<and> settles (ops ! i) = None}"

definition tracked :: "'st operation list \<Rightarrow> 'st Batch \<Rightarrow> bool" where
  "tracked ops b \<longleftrightarrow>
     cursor b \<le> length ops \<and> distinct (active b) \<and> (\<forall>i \<in> set (active b). i < cursor b) \<and>
     (firstError b = None \<longrightarrow>
        (\<forall>i < cursor b. i \<notin> set (active b) \<longrightarrow> settles (ops ! i) = None)) \<and>
     (\<forall>e. firstError b = Some e \<longrightarrow>
        (\<exists>i < cursor b. i \<notin> set (active b) \<and>
           (settles (ops ! i) = Some e \<or>
            settles (ops ! i) = None \<and> (\<exists>st. snd (resume_op (ops ! i) st) = Some e))))"

text \<open>
  The first task to fail, in the words of the spec: the tasks complete in the order of
  the schedule; a task fails when its \<^verbatim>\<open>stageBlock\<close> call is rejected, or when the
  progress callback, called once the bytes of the block have been added to the progress,
  throws. \<open>len k\<close> is the length of block \<open>k\<close>, \<open>tot\<close> the total the events
  report, \<open>p\<close> and \<open>evs\<close> the progress and the events so far. This is what the batch
  is compared with; the uploads do not use it.
\<close>

fun first_failure ::
  "('id, 'r) remote \<Rightarrow> bool \<Rightarrow> (nat \<Rightarrow> int) \<Rightarrow> int option \<Rightarrow> nat list \<Rightarrow> int \<Rightarrow>
   TransferProgressEvent list \<Rightarrow> error option" where
  "first_failure env prog len tot [] p evs = None"
| "first_failure env prog len tot (k # order) p evs =
     (case stageBlock_result env k of
        Some m \<Rightarrow> Some (RemoteError m)
      | None \<Rightarrow>
          let p' = p + len k;
              evs' = evs @ [\<lparr> loadedBytes = p', totalBytes = tot \<rparr>]
          in if prog
             then (case progress_result env evs' of
                     Some m \<Rightarrow> Some (CallbackError m)
                   | None \<Rightarrow> first_failure env prog len tot order p' evs')
             else first_failure env prog len tot order p' evs)"

definition Batch_new :: "constants \<Rightarrow> nat option \<Rightarrow> nat" where
  "Batch_new C p = (case p of None \<Rightarrow> DEFAULT_CONCURRENCY C | Some c \<Rightarrow> c)"

subsection \<open>UploadResetableStreamToBlockBlob\<close>

text \<open>
  Lines 92 to 119: the defaults written into the options object and the two checks.
  The function returns the options object as the caller sees it afterwards, and the
  block size read back from it, or the error thrown.
\<close>

definition upload_options ::
  "constants \<Rightarrow> int \<Rightarrow> IUploadToBlockBlobOptions \<Rightarrow> IUploadToBlockBlobOptions \<times> (error + int)" where
  "upload_options C sz opts =
     (let o1 = (if blockSize opts = None \<or> blockSize opts = Some 0
                then opts\<lparr> blockSize := Some 0 \<rparr> else opts);
          bs1 = (case blockSize o1 of None \<Rightarrow> 0 | Some b \<Rightarrow> b)
      in if bs1 < 0 \<or> bs1 > BLOCK_BLOB_MAX_UPLOAD_BLOB_BYTES C
         then (o1, Inl BlockSizeOutOfRange)
         else if bs1 = 0 \<and>
                 sz > BLOCK_BLOB_MAX_STAGE_BLOCK_BYTES C * BLOCK_BLOB_MAX_BLOCKS C
         then (o1, Inl (SizeTooLarge sz))
         else
           let bs2 = (if bs1 = 0 \<and> sz > BLOCK_BLOB_MAX_UPLOAD_BLOB_BYTES C
                      then (let c = \<lceil>real_of_int sz / real_of_int (BLOCK_BLOB_MAX_BLOCKS C)\<rceil>
                            in if c < BLOB_DEFAULT_DOWNLOAD_BLOCK_BYTES C
                               then BLOB_DEFAULT_DOWNLOAD_BLOCK_BYTES C else c)
                      else bs1);
               o2 = o1\<lparr> blockSize := Some bs2 \<rparr>;
               o3 = (if blobHTTPHeaders o2 = None
                     then o2\<lparr> blobHTTPHeaders := Some [] \<rparr> else o2);
               o4 = (if blobAccessConditions o3 = None
                     then o3\<lparr> blobAccessConditions := Some empty_conditions \<rparr> else o3)
           in (o4, Inr bs2))"

text \<open>
  The body of the operation added for block \<open>i\<close> (lines 139 to 160): up to the
  \<^verbatim>\<open>await\<close> it pushes the block ID and issues \<^verbatim>\<open>stageBlock\<close>; after it, it adds the
  content length to \<^verbatim>\<open>transferProgress\<close> and calls the progress callback.
  \<^verbatim>\<open>generateBlockID\<close> (\<^verbatim>\<open>utils/utils.common\<close>, not among the sources) is the
  parameter \<open>generateBlockID\<close>.
\<close>

definition contentLength :: "int \<Rightarrow> int \<Rightarrow> int \<Rightarrow> nat \<Rightarrow> int" where
  "contentLength bs sz numBlocks i =
     (let start = bs * int i;
          end = (if int i = numBlocks - 1 then sz else start + bs)
      in end - start)"

definition upload_operation ::
  "(nat \<Rightarrow> 'id) \<Rightarrow> ('id, 'r) remote \<Rightarrow> bool \<Rightarrow> int \<Rightarrow> int \<Rightarrow> int \<Rightarrow> nat \<Rightarrow> 'id transfer operation" where
  "upload_operation generateBlockID env prog bs sz numBlocks i =
     \<lparr> begin_op = (\<lambda>s. s\<lparr> blockList := blockList s @ [generateBlockID i],
                          calls := calls s @ [StageBlock (generateBlockID i) (bs * int i)
                                                (contentLength bs sz numBlocks i)] \<rparr>),
       settles = map_option RemoteError (stageBlock_result env i),
       resume_op = (\<lambda>s.
         let p = transferProgress s + contentLength bs sz numBlocks i;
             evs = events s @ [\<lparr> loadedBytes = p, totalBytes = Some sz \<rparr>]
         in if prog
            then (s\<lparr> transferProgress := p, events := evs \<rparr>,
                  map_option CallbackError (progress_result env evs))
            else (s\<lparr> transferProgress := p \<rparr>, None)) \<rparr>"

definition numBlocks_of :: "int \<Rightarrow> int \<Rightarrow> int" where
  "numBlocks_of sz bs = \<lfloor>real_of_int (sz - 1) / real_of_int bs\<rfloor> + 1"

definition upload_operations ::
  "(nat \<Rightarrow> 'id) \<Rightarrow> ('id, 'r) remote \<Rightarrow> bool \<Rightarrow> int \<Rightarrow> int \<Rightarrow> 'id transfer operation list" where
  "upload_operations generateBlockID env prog bs sz =
     map (upload_operation generateBlockID env prog bs sz (numBlocks_of sz bs))
       [0..<nat (numBlocks_of sz bs)]"

definition UploadResetableStreamToBlockBlob ::
  "constants \<Rightarrow> (nat \<Rightarrow> 'id) \<Rightarrow> ('id, 'r) remote \<Rightarrow> nat list \<Rightarrow> int \<Rightarrow>
   IUploadToBlockBlobOptions \<Rightarrow> ('id, 'r, IUploadToBlockBlobOptions) outcome option" where
  "UploadResetableStreamToBlockBlob C generateBlockID env order sz opts =
     (case upload_options C sz opts of
        (opts', Inl e) \<Rightarrow>
          Some \<lparr> result = Inl e, options_after = opts', final = initial \<rparr>
      | (opts', Inr bs) \<Rightarrow>
          if sz \<le> BLOCK_BLOB_MAX_UPLOAD_BLOB_BYTES C
          then Some \<lparr> result = rejected (upload_result env), options_after = opts',
                      final = initial\<lparr> calls := [Upload sz] \<rparr> \<rparr>
          else
            let numBlocks = numBlocks_of sz bs
            in if numBlocks > BLOCK_BLOB_MAX_BLOCKS C
               then Some \<lparr> result = Inl TooManyBlocks, options_after = opts',
                           final = initial \<rparr>
               else
                 (case Batch_do (Batch_new C (parallelism opts'))
                         (upload_operations generateBlockID env (progress opts') bs sz)
                         order initial of
                    None \<Rightarrow> None
                  | Some (Some e, st) \<Rightarrow>
                      Some \<lparr> result = Inl e, options_after = opts', final = st \<rparr>
                  | Some (None, st) \<Rightarrow>
                      Some \<lparr> result = rejected (commitBlockList_result env (blockList st)),
                             options_after = opts',
                             final = st\<lparr> calls := calls st @
                                                     [CommitBlockList (blockList st)] \<rparr> \<rparr>))"

subsection \<open>DownloadBlobToBuffer\<close>

text \<open>
  Lines 192 to 212: the defaults written into the options object and the three checks,
  in the order of the source. The function returns the options object as the caller
  sees it afterwards, and the block size read back from it, or the error thrown.
\<close>

definition download_options ::
  "constants \<Rightarrow> int \<Rightarrow> int \<Rightarrow> IDownloadFromBlobOptions \<Rightarrow>
   IDownloadFromBlobOptions \<times> (error + int)" where
  "download_options C offset count opts =
     (let o1 = (if dl_blockSize opts = None \<or> dl_blockSize opts = Some 0
                then opts\<lparr> dl_blockSize := Some 0 \<rparr> else opts);
          bs1 = (case dl_blockSize o1 of None \<Rightarrow> 0 | Some b \<Rightarrow> b)
      in if bs1 < 0 then (o1, Inl BlockSizeNegative)
         else
           let bs2 = (if bs1 = 0 then BLOB_DEFAULT_DOWNLOAD_BLOCK_BYTES C else bs1);
               o2 = o1\<lparr> dl_blockSize := Some bs2 \<rparr>
           in if offset < 0 then (o2, Inl OffsetNegative)
              else if count < 0 then (o2, Inl CountNegative)
              else
                let o3 = (if dl_blobAccessConditions o2 = None
                          then o2\<lparr> dl_blobAccessConditions := Some empty_conditions \<rparr>
                          else o2)
                in (o3, Inr bs2))"

text \<open>
  Lines 214 to 227: a count of 0 is resolved from the metadata of the blob, then the
  length of the buffer is checked. The function returns the remote calls issued and the
  resolved count, or the error.
\<close>

definition resolve_count ::
  "('id, 'r) remote \<Rightarrow> int \<Rightarrow> int \<Rightarrow> int \<Rightarrow> 'id call list \<times> (error + int)" where
  "resolve_count env offset count bufferLength =
     (let (cs, r) =
            (if count = 0
             then ([GetProperties],
                   (case getProperties_result env of
                      Inl m \<Rightarrow> Inl (RemoteError m)
                    | Inr len \<Rightarrow>
                        let count' = len - offset
                        in if count' < 0 then Inl (ResolvedCountNegative count')
                           else Inr count'))
             else ([], Inr count))
      in (case r of
            Inl e \<Rightarrow> (cs, Inl e)
          | Inr count' \<Rightarrow>
              if bufferLength < count' then (cs, Inl (BufferTooSmall count'))
              else (cs, Inr count')))"

text \<open>
  The values of \<^verbatim>\<open>off\<close> in the loop of line 231, from \<open>off\<close> while \<open>off < stop\<close>.
  The loop ends only for a positive block size; the caller below handles the other case.
\<close>

function offsets :: "int \<Rightarrow> int \<Rightarrow> int \<Rightarrow> int list" where
  "offsets off stop bs =
     (if off < stop \<and> 0 < bs then off # offsets (off + bs) stop bs else [])"
  by pat_completeness auto
termination
  by (relation "measure (\<lambda>(off, stop, bs). nat (stop - off))") auto

text \<open>
  The body of the operation added for the offset \<open>off\<close> (lines 232 to 248), the \<open>k\<close>-th
  operation of the batch. \<open>chunkEnd\<close> is line 233; the ranged read asks for
  \<open>chunkEnd - off + 1\<close> bytes at \<open>off\<close>; \<^verbatim>\<open>streamToBuffer\<close> gets the region from
  \<open>off - offset\<close> to \<open>chunkEnd - offset\<close> of the buffer; \<open>chunkEnd - off\<close> is added to
  \<^verbatim>\<open>transferProgress\<close>. The two awaited calls, the ranged read and the copy into the
  buffer, settle as one.
\<close>

definition chunkEnd :: "int \<Rightarrow> int \<Rightarrow> int \<Rightarrow> int" where
  "chunkEnd bs count off = (if off + bs < count then off + bs else count)"

definition download_operation ::
  "('id, 'r) remote \<Rightarrow> bool \<Rightarrow> int \<Rightarrow> int \<Rightarrow> int \<Rightarrow> nat \<times> int \<Rightarrow> 'id transfer operation" where
  "download_operation env prog bs offset count ko =
     (case ko of (k, off) \<Rightarrow>
       \<lparr> begin_op = (\<lambda>s. s\<lparr> calls := calls s @
                               [Download off (chunkEnd bs count off - off + 1)] \<rparr>),
         settles = map_option RemoteError (download_result env k),
         resume_op = (\<lambda>s.
           let p = transferProgress s + (chunkEnd bs count off - off);
               evs = events s @ [\<lparr> loadedBytes = p, totalBytes = Some count \<rparr>];
               s' = s\<lparr> regions := regions s @ [(off - offset, chunkEnd bs count off - offset)],
                       transferProgress := p \<rparr>
           in if prog
              then (s'\<lparr> events := evs \<rparr>, map_option CallbackError (progress_result env evs))
              else (s', None)) \<rparr>)"

text \<open>
  What it means for a list of regions (start, exclusive end) to split the interval from
  \<open>a\<close> to \<open>b\<close>: each region is non-empty and begins where the one before it ends.
\<close>

fun tiles :: "int \<Rightarrow> int \<Rightarrow> (int \<times> int) list \<Rightarrow> bool" where
  "tiles a b [] \<longleftrightarrow> a = b"
| "tiles a b ((s, e) # rs) \<longleftrightarrow> s = a \<and> a < e \<and> tiles e b rs"

definition download_operations ::
  "('id, 'r) remote \<Rightarrow> bool \<Rightarrow> int \<Rightarrow> int \<Rightarrow> int \<Rightarrow> 'id transfer operation list" where
  "download_operations env prog bs offset count =
     map (download_operation env prog bs offset count)
       (enumerate 0 (offsets offset (offset + count) bs))"

text \<open>
  The result is \<open>None\<close> when the function does not return: the schedule is not a
  complete run of the batch, or the loop of line 231 does not end.
\<close>

definition DownloadBlobToBuffer ::
  "constants \<Rightarrow> ('id, 'r) remote \<Rightarrow> nat list \<Rightarrow> int \<Rightarrow> int \<Rightarrow> int \<Rightarrow>
   IDownloadFromBlobOptions \<Rightarrow> ('id, unit, IDownloadFromBlobOptions) outcome option" where
  "DownloadBlobToBuffer C env order offset count bufferLength opts =
     (case download_options C offset count opts of
        (opts', Inl e) \<Rightarrow>
          Some \<lparr> result = Inl e, options_after = opts', final = initial \<rparr>
      | (opts', Inr bs) \<Rightarrow>
          (case resolve_count env offset count bufferLength of
             (cs, Inl e) \<Rightarrow>
               Some \<lparr> result = Inl e, options_after = opts',
                      final = initial\<lparr> calls := cs \<rparr> \<rparr>
           | (cs, Inr count') \<Rightarrow>
               if bs \<le> 0 \<and> 0 < count' then None
               else
                 (case Batch_do (Batch_new C (dl_parallelism opts'))
                         (download_operations env (dl_progress opts') bs offset count')
                         order (initial\<lparr> calls := cs \<rparr>) of
                    None \<Rightarrow> None
                  | Some (Some e, st) \<Rightarrow>
                      Some \<lparr> result = Inl e, options_after = opts', final = st \<rparr>
                  | Some (None, st) \<Rightarrow>
                      Some \<lparr> result = Inr (), options_after = opts', final = st \<rparr>)))"

subsection \<open>UploadStreamToBlockBlob\<close>

text \<open>
  Modelled from the spec: \<^verbatim>\<open>utils/BufferScheduler.ts\<close> is not among the sources. The
  spec's Buffer Scheduler reads the stream once, in order, into buffers of \<open>bufferSize\<close>
  bytes, the last one possibly short, and hands the filled buffers in stream order to
  the handler under the cap \<open>outgoingConcurrency\<close>; a failure of a handler stops further
  dispatch, the handlers in flight drain, and the first failure is returned. That is
  the batch above over one operation per buffer. The stream is its length in bytes.
\<close>

definition buffer_lengths :: "nat \<Rightarrow> nat \<Rightarrow> nat list" where
  "buffer_lengths streamLength bufferSize =
     replicate (streamLength div bufferSize) bufferSize @
     (if streamLength mod bufferSize = 0 then [] else [streamLength mod bufferSize])"

definition BufferScheduler_do ::
  "nat \<Rightarrow> 'st operation list \<Rightarrow> nat list \<Rightarrow> 'st \<Rightarrow> (error option \<times> 'st) option" where
  "BufferScheduler_do outgoingConcurrency handlers order st =
     Batch_do outgoingConcurrency handlers order st"

text \<open>
  The handler of lines 335 to 349 for the \<open>k\<close>-th buffer: up to the \<^verbatim>\<open>await\<close> it
  generates the ID from \<^verbatim>\<open>blockNum\<close>, pushes it, increments \<^verbatim>\<open>blockNum\<close> and issues
  \<^verbatim>\<open>stageBlock\<close>; after it, it adds the length of the buffer to \<^verbatim>\<open>transferProgress\<close>.
\<close>

definition stream_handler ::
  "(nat \<Rightarrow> 'id) \<Rightarrow> ('id, 'r) remote \<Rightarrow> bool \<Rightarrow> nat \<Rightarrow> nat \<times> nat \<Rightarrow> 'id transfer operation" where
  "stream_handler generateBlockID env prog bufferSize kl =
     (case kl of (k, len) \<Rightarrow>
       \<lparr> begin_op = (\<lambda>s.
           let blockID = generateBlockID (blockNum s)
           in s\<lparr> blockList := blockList s @ [blockID],
                 blockNum := blockNum s + 1,
                 calls := calls s @ [StageBlock blockID (int (bufferSize * k)) (int len)] \<rparr>),
         settles = map_option RemoteError (stageBlock_result env k),
         resume_op = (\<lambda>s.
           let p = transferProgress s + int len;
               evs = events s @ [\<lparr> loadedBytes = p, totalBytes = None \<rparr>]
           in if prog
              then (s\<lparr> transferProgress := p, events := evs \<rparr>,
                    map_option CallbackError (progress_result env evs))
              else (s\<lparr> transferProgress := p \<rparr>, None)) \<rparr>)"

definition stream_handlers ::
  "(nat \<Rightarrow> 'id) \<Rightarrow> ('id, 'r) remote \<Rightarrow> bool \<Rightarrow> nat \<Rightarrow> nat \<Rightarrow> 'id transfer operation list" where
  "stream_handlers generateBlockID env prog streamLength bufferSize =
     map (stream_handler generateBlockID env prog bufferSize)
       (enumerate 0 (buffer_lengths streamLength bufferSize))"

definition stream_options ::
  "IUploadStreamToBlockBlobOptions \<Rightarrow> IUploadStreamToBlockBlobOptions" where
  "stream_options opts =
     (let o1 = (if st_blobHTTPHeaders opts = None
                then opts\<lparr> st_blobHTTPHeaders := Some [] \<rparr> else opts)
      in if st_accessConditions o1 = None
         then o1\<lparr> st_accessConditions := Some empty_conditions \<rparr> else o1)"

text \<open>
  The result is \<open>None\<close> when the schedule is not a complete run, and for a buffer size
  or a buffer count of 0, which the spec's contract of the scheduler excludes.
\<close>

definition UploadStreamToBlockBlob ::
  "(nat \<Rightarrow> 'id) \<Rightarrow> ('id, 'r) remote \<Rightarrow> nat list \<Rightarrow> nat \<Rightarrow> nat \<Rightarrow> nat \<Rightarrow>
   IUploadStreamToBlockBlobOptions \<Rightarrow>
   ('id, 'r, IUploadStreamToBlockBlobOptions) outcome option" where
  "UploadStreamToBlockBlob generateBlockID env order streamLength bufferSize maxBuffers opts =
     (let opts' = stream_options opts
      in if bufferSize = 0 \<or> maxBuffers = 0 then None
         else
           (case BufferScheduler_do (nat \<lceil>real maxBuffers / 4 * 3\<rceil>)
                   (stream_handlers generateBlockID env (st_progress opts')
                      streamLength bufferSize)
                   order initial of
              None \<Rightarrow> None
            | Some (Some e, st) \<Rightarrow>
                Some \<lparr> result = Inl e, options_after = opts', final = st \<rparr>
            | Some (None, st) \<Rightarrow>
                Some \<lparr> result = rejected (commitBlockList_result env (blockList st)),
                       options_after = opts',
                       final = st\<lparr> calls := calls st @
                                               [CommitBlockList (blockList st)] \<rparr> \<rparr>))"

subsection \<open>Concrete inputs\<close>

text \<open>
  An environment in which every remote operation succeeds, against a blob of 8 bytes, one
  in which the staging of block 1 fails and one in which the second call of the progress
  callback throws; option objects with nothing set.
\<close>

definition all_succeed :: "(nat, string) remote" where
  "all_succeed =
     \<lparr> upload_result = Inr ''uploaded'',
       stageBlock_result = (\<lambda>k. None),
       commitBlockList_result = (\<lambda>ids. Inr ''committed''),
       getProperties_result = Inr 8,
       download_result = (\<lambda>k. None),
       progress_result = (\<lambda>evs. None) \<rparr>"

definition block_1_fails :: "(nat, string) remote" where
  "block_1_fails = all_succeed\<lparr> stageBlock_result := (\<lambda>k. if k = 1 then Some ''503'' else None) \<rparr>"

definition second_call_throws :: "(nat, string) remote" where
  "second_call_throws =
     all_succeed\<lparr> progress_result := (\<lambda>evs. if length evs = 2 then Some ''thrown'' else None) \<rparr>"

definition no_upload_options :: IUploadToBlockBlobOptions where
  "no_upload_options =
     \<lparr> blockSize = None, parallelism = None, progress = False,
       blobHTTPHeaders = None, blobAccessConditions = None \<rparr>"

definition no_download_options :: IDownloadFromBlobOptions where
  "no_download_options =
     \<lparr> dl_blockSize = None, dl_parallelism = None, dl_progress = False,
       dl_blobAccessConditions = None \<rparr>"

definition no_stream_options :: IUploadStreamToBlockBlobOptions where
  "no_stream_options =
     \<lparr> st_blobHTTPHeaders = None, st_accessConditions = None, st_progress = False \<rparr>"

declare fill.simps [simp del]
declare offsets.simps [simp del]

section \<open>The choice of the block size\<close>

text \<open>
  For a positive block count \<open>M\<close> and a positive size, \<open>\<lceil>sz / M\<rceil>\<close> is the least
  positive block size whose block count \<open>\<lceil>sz / s\<rceil>\<close> stays within \<open>M\<close>.
\<close>

lemma ceil_least_pos:
  fixes sz M :: int
  assumes "0 < M" "0 < sz"
  shows "0 < \<lceil>real_of_int sz / real_of_int M\<rceil>"
  using assms by (simp add: less_ceiling_iff)

lemma ceil_least_ok:
  fixes sz M :: int
  assumes "0 < M" "0 < sz"
  shows "\<lceil>real_of_int sz / real_of_int \<lceil>real_of_int sz / real_of_int M\<rceil>\<rceil> \<le> M"
proof -
  let ?s = "\<lceil>real_of_int sz / real_of_int M\<rceil>"
  have pos: "0 < real_of_int ?s" using ceil_least_pos[OF assms] by simp
  have Mr: "0 < real_of_int M" using assms(1) by simp
  have "real_of_int sz \<le> real_of_int ?s * real_of_int M"
    unfolding pos_divide_le_eq[OF Mr, symmetric] by (rule le_of_int_ceiling)
  then have "real_of_int sz / real_of_int ?s \<le> real_of_int M"
    using pos by (simp add: pos_divide_le_eq mult.commute)
  then show ?thesis by (simp add: ceiling_le_iff)
qed

lemma ceil_least_min:
  fixes sz M s :: int
  assumes "0 < M" "0 < s" "s < \<lceil>real_of_int sz / real_of_int M\<rceil>"
  shows "M < \<lceil>real_of_int sz / real_of_int s\<rceil>"
proof -
  have "real_of_int s < real_of_int sz / real_of_int M"
    using assms(3) by (simp add: less_ceiling_iff)
  then have "real_of_int s * real_of_int M < real_of_int sz"
    using assms(1) by (simp add: pos_less_divide_eq)
  then have "real_of_int M < real_of_int sz / real_of_int s"
    using assms(2) by (simp add: pos_less_divide_eq mult.commute)
  then show ?thesis by (simp add: less_ceiling_iff)
qed

lemma upload_options_auto:
  assumes "blockSize opts = None \<or> blockSize opts = Some 0"
    and "0 \<le> BLOCK_BLOB_MAX_UPLOAD_BLOB_BYTES C"
    and "BLOCK_BLOB_MAX_UPLOAD_BLOB_BYTES C < sz"
  shows "snd (upload_options C sz opts) =
     (if sz > BLOCK_BLOB_MAX_STAGE_BLOCK_BYTES C * BLOCK_BLOB_MAX_BLOCKS C
      then Inl (SizeTooLarge sz)
      else Inr (max \<lceil>real_of_int sz / real_of_int (BLOCK_BLOB_MAX_BLOCKS C)\<rceil>
                    (BLOB_DEFAULT_DOWNLOAD_BLOCK_BYTES C)))"
  using assms by (auto simp: upload_options_def Let_def max_def)

text \<open>
  Claim C6. When the caller leaves the block size unset (absent, or 0) and the size
  exceeds the limit of a single upload call: a size above
  \<open>BLOCK_BLOB_MAX_STAGE_BLOCK_BYTES * BLOCK_BLOB_MAX_BLOCKS\<close> is rejected with the size
  error, before any remote call and under every schedule; otherwise the block size
  chosen, and written into the options, is the least positive \<open>s0\<close> with
  \<open>\<lceil>sz / s0\<rceil> \<le> BLOCK_BLOB_MAX_BLOCKS\<close>, raised to
  \<open>BLOB_DEFAULT_DOWNLOAD_BLOCK_BYTES\<close> when it is smaller.
\<close>

theorem C6_block_size_choice:
  assumes "0 < BLOCK_BLOB_MAX_BLOCKS C"
    and "0 \<le> BLOCK_BLOB_MAX_UPLOAD_BLOB_BYTES C"
    and "blockSize opts = None \<or> blockSize opts = Some 0"
    and "BLOCK_BLOB_MAX_UPLOAD_BLOB_BYTES C < sz"
  shows "if BLOCK_BLOB_MAX_STAGE_BLOCK_BYTES C * BLOCK_BLOB_MAX_BLOCKS C < sz
         then UploadResetableStreamToBlockBlob C generateBlockID env order sz opts =
                Some \<lparr> result = Inl (SizeTooLarge sz),
                       options_after = opts\<lparr> blockSize := Some 0 \<rparr>,
                       final = initial \<rparr>
         else (\<exists>s0. 0 < s0
                 \<and> \<lceil>real_of_int sz / real_of_int s0\<rceil> \<le> BLOCK_BLOB_MAX_BLOCKS C
                 \<and> (\<forall>s. 0 < s \<and> s < s0 \<longrightarrow>
                        BLOCK_BLOB_MAX_BLOCKS C < \<lceil>real_of_int sz / real_of_int s\<rceil>)
                 \<and> snd (upload_options C sz opts) =
                     Inr (max s0 (BLOB_DEFAULT_DOWNLOAD_BLOCK_BYTES C))
                 \<and> blockSize (fst (upload_options C sz opts)) =
                     Some (max s0 (BLOB_DEFAULT_DOWNLOAD_BLOCK_BYTES C)))"
proof (cases "BLOCK_BLOB_MAX_STAGE_BLOCK_BYTES C * BLOCK_BLOB_MAX_BLOCKS C < sz")
  case True
  have "upload_options C sz opts = (opts\<lparr> blockSize := Some 0 \<rparr>, Inl (SizeTooLarge sz))"
    using assms True by (auto simp: upload_options_def Let_def)
  then show ?thesis using True
    by (simp add: UploadResetableStreamToBlockBlob_def)
next
  case False
  let ?s0 = "\<lceil>real_of_int sz / real_of_int (BLOCK_BLOB_MAX_BLOCKS C)\<rceil>"
  have szpos: "0 < sz" using assms(2,4) by simp
  have 1: "0 < ?s0" using ceil_least_pos[OF assms(1) szpos] .
  have 2: "\<lceil>real_of_int sz / real_of_int ?s0\<rceil> \<le> BLOCK_BLOB_MAX_BLOCKS C"
    using ceil_least_ok[OF assms(1) szpos] .
  have 3: "\<forall>s. 0 < s \<and> s < ?s0 \<longrightarrow> BLOCK_BLOB_MAX_BLOCKS C < \<lceil>real_of_int sz / real_of_int s\<rceil>"
    using ceil_least_min[OF assms(1)] by blast
  have 4: "snd (upload_options C sz opts) = Inr (max ?s0 (BLOB_DEFAULT_DOWNLOAD_BLOCK_BYTES C))"
    using upload_options_auto[OF assms(3,2,4)] False by simp
  have 5: "blockSize (fst (upload_options C sz opts)) = Some (max ?s0 (BLOB_DEFAULT_DOWNLOAD_BLOCK_BYTES C))"
    using assms False by (auto simp: upload_options_def Let_def max_def)
  have "\<exists>s0. 0 < s0
                 \<and> \<lceil>real_of_int sz / real_of_int s0\<rceil> \<le> BLOCK_BLOB_MAX_BLOCKS C
                 \<and> (\<forall>s. 0 < s \<and> s < s0 \<longrightarrow>
                        BLOCK_BLOB_MAX_BLOCKS C < \<lceil>real_of_int sz / real_of_int s\<rceil>)
                 \<and> snd (upload_options C sz opts) =
                     Inr (max s0 (BLOB_DEFAULT_DOWNLOAD_BLOCK_BYTES C))
                 \<and> blockSize (fst (upload_options C sz opts)) =
                     Some (max s0 (BLOB_DEFAULT_DOWNLOAD_BLOCK_BYTES C))"
    using 1 2 3 4 5 by blast
  then show ?thesis using False by (simp only: if_False)
qed

text \<open>
  The theorem at the constants of the service: a size of 5242880000001 bytes is
  rejected, and for 300000000 bytes the least block size is raised to 4MB.
\<close>

theorem C6_block_size_choice_witness:
  "UploadResetableStreamToBlockBlob service_constants (\<lambda>i. i) all_succeed [] 5242880000001
      no_upload_options =
     Some \<lparr> result = Inl (SizeTooLarge 5242880000001),
            options_after = no_upload_options\<lparr> blockSize := Some 0 \<rparr>,
            final = initial \<rparr>
   \<and> (\<exists>s0. 0 < s0
         \<and> \<lceil>real_of_int 300000000 / real_of_int s0\<rceil> \<le> BLOCK_BLOB_MAX_BLOCKS service_constants
         \<and> (\<forall>s. 0 < s \<and> s < s0 \<longrightarrow>
                BLOCK_BLOB_MAX_BLOCKS service_constants < \<lceil>real_of_int 300000000 / real_of_int s\<rceil>)
         \<and> snd (upload_options service_constants 300000000 no_upload_options) =
             Inr (max s0 (BLOB_DEFAULT_DOWNLOAD_BLOCK_BYTES service_constants))
         \<and> blockSize (fst (upload_options service_constants 300000000 no_upload_options)) =
             Some (max s0 (BLOB_DEFAULT_DOWNLOAD_BLOCK_BYTES service_constants)))"
proof -
  have a: "0 < BLOCK_BLOB_MAX_BLOCKS service_constants"
    and b: "0 \<le> BLOCK_BLOB_MAX_UPLOAD_BLOB_BYTES service_constants"
    and c: "blockSize no_upload_options = None \<or> blockSize no_upload_options = Some 0"
    and d: "BLOCK_BLOB_MAX_UPLOAD_BLOB_BYTES service_constants < 5242880000001"
    and e: "BLOCK_BLOB_MAX_UPLOAD_BLOB_BYTES service_constants < 300000000"
    and f: "BLOCK_BLOB_MAX_STAGE_BLOCK_BYTES service_constants *
              BLOCK_BLOB_MAX_BLOCKS service_constants < 5242880000001"
    and g: "\<not> BLOCK_BLOB_MAX_STAGE_BLOCK_BYTES service_constants *
              BLOCK_BLOB_MAX_BLOCKS service_constants < 300000000"
    by (simp_all add: service_constants_def no_upload_options_def)
  show ?thesis
    using C6_block_size_choice[OF a b c d, of "\<lambda>i. i" all_succeed "[]"]
          C6_block_size_choice[OF a b c e] f g
    by (simp only: if_True if_False simp_thms)
qed

section \<open>The batch\<close>

text \<open>
  A property that holds before the first operation is started, that starting an
  operation keeps and that the settling of an active operation keeps, holds in every
  state a schedule leads to.
\<close>

lemma fill_keeps:
  "P b \<Longrightarrow> (\<And>b. P b \<Longrightarrow> startable ops b \<Longrightarrow> P (start_next ops b)) \<Longrightarrow> P (fill ops b)"
proof (induction ops b rule: fill.induct)
  case (1 ops b)
  show ?case
  proof (cases "startable ops b")
    case True
    then have "P (start_next ops b)" using "1.prems" by blast
    then have "P (fill ops (start_next ops b))" using "1.IH" True "1.prems"(2) by blast
    then show ?thesis using True by (subst fill.simps) simp
  next
    case False
    then show ?thesis using "1.prems" by (subst fill.simps) simp
  qed
qed

lemma run_keeps:
  assumes "run ops order b = Some b'" and "P b"
    and "\<And>b. P b \<Longrightarrow> startable ops b \<Longrightarrow> P (start_next ops b)"
    and "\<And>b i. P b \<Longrightarrow> i \<in> set (active b) \<Longrightarrow> P (finish ops i b)"
  shows "P b'"
  using assms(1,2)
proof (induction order arbitrary: b)
  case Nil
  then show ?case by simp
next
  case (Cons i order)
  from Cons.prems(1) have act: "i \<in> set (active b)"
    and rest: "run ops order (fill ops (finish ops i b)) = Some b'"
    by (auto simp: settle_def split: if_splits)
  have "P (finish ops i b)" using assms(4) Cons.prems(2) act by blast
  then have "P (fill ops (finish ops i b))" using fill_keeps assms(3) by blast
  then show ?case using Cons.IH rest by blast
qed

lemma Batch_start_keeps:
  assumes "P \<lparr> concurrencyLimit = limit, cursor = 0, active = [], firstError = None, shared = st \<rparr>"
    and "\<And>b. P b \<Longrightarrow> startable ops b \<Longrightarrow> P (start_next ops b)"
  shows "P (Batch_start limit ops st)"
  unfolding Batch_start_def using assms by (rule fill_keeps)


lemma finish_cursor [simp]: "cursor (finish ops i b) = cursor b"
  by (simp add: finish_def fail_def split: option.split prod.split)

lemma finish_active [simp]: "active (finish ops i b) = remove1 i (active b)"
  by (simp add: finish_def fail_def split: option.split prod.split)

lemma finish_concurrencyLimit [simp]: "concurrencyLimit (finish ops i b) = concurrencyLimit b"
  by (simp add: finish_def fail_def split: option.split prod.split)

lemma finish_shared:
  "shared (finish ops i b) =
     (case settles (ops ! i) of None \<Rightarrow> fst (resume_op (ops ! i) (shared b))
      | Some e \<Rightarrow> shared b)"
  by (simp add: finish_def fail_def split: option.split prod.split)

lemma finish_firstError:
  "firstError (finish ops i b) =
     (case firstError b of
        Some e0 \<Rightarrow> Some e0
      | None \<Rightarrow> (case settles (ops ! i) of Some e \<Rightarrow> Some e
                 | None \<Rightarrow> snd (resume_op (ops ! i) (shared b))))"
  by (auto simp: finish_def fail_def split: option.split prod.split)

lemma tracked_initial:
  "tracked ops \<lparr> concurrencyLimit = limit, cursor = 0, active = [], firstError = None, shared = st \<rparr>"
  by (simp add: tracked_def)

lemma tracked_start:
  assumes "tracked ops b" and "startable ops b"
  shows "tracked ops (start_next ops b)"
proof -
  have c: "cursor b < length ops" and ne: "firstError b = None"
    using assms(2) by (simp_all add: startable_def)
  have fresh: "cursor b \<notin> set (active b)" using assms(1) by (auto simp: tracked_def)
  show ?thesis
    using assms(1) c ne fresh
    by (auto simp: tracked_def start_next_def less_Suc_eq)
qed

lemma tracked_finish:
  assumes "tracked ops b" and "i \<in> set (active b)"
  shows "tracked ops (finish ops i b)"
proof -
  have i: "i < cursor b" and d: "distinct (active b)" and c: "cursor b \<le> length ops"
    using assms by (auto simp: tracked_def)
  have in_rm: "j \<notin> set (remove1 i (active b)) \<longleftrightarrow> j = i \<or> j \<notin> set (active b)" for j
    using d by auto
  have 1: "cursor (finish ops i b) \<le> length ops" using c by simp
  have 2: "distinct (active (finish ops i b))" using d by simp
  have 3: "\<forall>j \<in> set (active (finish ops i b)). j < cursor (finish ops i b)"
    using assms(1) by (auto simp: tracked_def dest: notin_set_remove1)
  have 4: "firstError (finish ops i b) = None \<longrightarrow>
             (\<forall>j < cursor (finish ops i b). j \<notin> set (active (finish ops i b)) \<longrightarrow>
                settles (ops ! j) = None)"
    using assms(1)
    by (auto simp: finish_firstError in_rm tracked_def split: option.split_asm)
  have 5: "\<forall>e. firstError (finish ops i b) = Some e \<longrightarrow>
        (\<exists>j < cursor (finish ops i b). j \<notin> set (active (finish ops i b)) \<and>
           (settles (ops ! j) = Some e \<or>
            settles (ops ! j) = None \<and> (\<exists>st. snd (resume_op (ops ! j) st) = Some e)))"
  proof (intro allI impI)
    fix e assume e: "firstError (finish ops i b) = Some e"
    show "\<exists>j < cursor (finish ops i b). j \<notin> set (active (finish ops i b)) \<and>
           (settles (ops ! j) = Some e \<or>
            settles (ops ! j) = None \<and> (\<exists>st. snd (resume_op (ops ! j) st) = Some e))"
    proof (cases "firstError b")
      case (Some e0)
      with e have "e0 = e" by (simp add: finish_firstError)
      with Some assms(1) obtain j where "j < cursor b" "j \<notin> set (active b)"
        "settles (ops ! j) = Some e \<or>
            settles (ops ! j) = None \<and> (\<exists>st. snd (resume_op (ops ! j) st) = Some e)"
        by (auto simp: tracked_def)
      then show ?thesis by (intro exI[of _ j]) (simp add: in_rm)
    next
      case None
      with e have "settles (ops ! i) = Some e \<or>
            settles (ops ! i) = None \<and> snd (resume_op (ops ! i) (shared b)) = Some e"
        by (auto simp: finish_firstError split: option.split_asm)
      then show ?thesis using i by (intro exI[of _ i]) (auto simp: in_rm)
    qed
  qed
  from 1 2 3 4 5 show ?thesis unfolding tracked_def by blast
qed

lemma tracked_run:
  assumes "run ops order (Batch_start limit ops st) = Some b"
  shows "tracked ops b"
proof -
  have "tracked ops (Batch_start limit ops st)"
    by (rule Batch_start_keeps[where P = "tracked ops"]) (auto intro: tracked_initial tracked_start)
  with assms show ?thesis
    by (rule run_keeps[where P = "tracked ops"]) (auto intro: tracked_start tracked_finish)
qed

lemma finite_completed: "finite (completed ops b)"
  by (simp add: completed_def)

lemma completed_start:
  assumes "tracked ops b"
  shows "completed ops (start_next ops b) = completed ops b"
  using assms by (auto simp: completed_def start_next_def tracked_def less_Suc_eq)

lemma completed_finish:
  assumes "tracked ops b" and "i \<in> set (active b)"
  shows "completed ops (finish ops i b) =
           (if settles (ops ! i) = None then insert i (completed ops b) else completed ops b)"
    and "i \<notin> completed ops b"
  using assms by (auto simp: completed_def tracked_def)

lemma finished_without_error:
  assumes "tracked ops b" and "finished ops b" and "firstError b = None"
  shows "cursor b = length ops" and "\<forall>i < length ops. settles (ops ! i) = None"
    and "completed ops b = {..<length ops}"
  using assms by (auto simp: tracked_def finished_def completed_def)

lemma finished_with_error:
  assumes "tracked ops b" and "firstError b = Some e"
  shows "\<exists>i < length ops. settles (ops ! i) = Some e \<or>
           settles (ops ! i) = None \<and> (\<exists>st. snd (resume_op (ops ! i) st) = Some e)"
proof -
  obtain i where "i < cursor b" "settles (ops ! i) = Some e \<or>
           settles (ops ! i) = None \<and> (\<exists>st. snd (resume_op (ops ! i) st) = Some e)"
    using assms by (auto simp: tracked_def)
  moreover have "cursor b \<le> length ops" using assms(1) by (simp add: tracked_def)
  ultimately show ?thesis by (intro exI[of _ i]) simp
qed

text \<open>
  What a run keeps and where it leads: the bookkeeping and the cap; and every state has
  a schedule that settles all active operations.
\<close>

lemma run_append:
  "run ops (order @ rest) b = (case run ops order b of None \<Rightarrow> None | Some b1 \<Rightarrow> run ops rest b1)"
  by (induction order arbitrary: b) (auto split: option.split)

lemma fill_not_startable: "\<not> startable ops (fill ops b)"
proof (induction ops b rule: fill.induct)
  case (1 ops b)
  then show ?case by (subst fill.simps) simp
qed

lemma fill_pending:
  "length (active (fill ops b)) + (length ops - cursor (fill ops b)) =
     length (active b) + (length ops - cursor b)"
proof (induction ops b rule: fill.induct)
  case (1 ops b)
  show ?case
  proof (cases "startable ops b")
    case True
    then have "length (active (start_next ops b)) + (length ops - cursor (start_next ops b)) =
                 length (active b) + (length ops - cursor b)"
      by (auto simp: startable_def start_next_def)
    with "1.IH"[OF True] True show ?thesis by (subst (1 2) fill.simps) simp
  next
    case False
    then show ?thesis by (subst (1 2) fill.simps) simp
  qed
qed

lemma finish_pending:
  assumes "i \<in> set (active b)"
  shows "length (active (finish ops i b)) + (length ops - cursor (finish ops i b)) + 1 =
           length (active b) + (length ops - cursor b)"
proof -
  have "length (remove1 i (active b)) + 1 = length (active b)"
    using assms by (simp add: length_remove1) (cases "active b"; simp)
  then show ?thesis by simp
qed

lemma drains:
  "length (active b) + (length ops - cursor b) = k \<Longrightarrow>
   \<exists>order b'. run ops order b = Some b' \<and> active b' = []
      \<and> (order = [] \<longrightarrow> b' = b) \<and> (order \<noteq> [] \<longrightarrow> \<not> startable ops b')"
proof (induction k arbitrary: b rule: less_induct)
  case (less k)
  show ?case
  proof (cases "active b")
    case Nil
    then have "run ops [] b = Some b \<and> active b = []" by simp
    then show ?thesis by blast
  next
    case (Cons i rest)
    then have act: "i \<in> set (active b)" by simp
    let ?b1 = "fill ops (finish ops i b)"
    have "length (active ?b1) + (length ops - cursor ?b1) < k"
      using fill_pending[where ops = ops and b = "finish ops i b"] finish_pending[OF act, where ops = ops] less.prems
      by simp
    from less.IH[OF this refl] obtain order b' where
      r: "run ops order ?b1 = Some b'" and e: "active b' = []"
      and same: "order = [] \<longrightarrow> b' = ?b1" and ns: "order \<noteq> [] \<longrightarrow> \<not> startable ops b'"
      by blast
    have "run ops (i # order) b = Some b'" using act r by (simp add: settle_def)
    moreover have "\<not> startable ops b'"
      using same ns fill_not_startable[where ops = ops and b = "finish ops i b"] by (cases order) auto
    ultimately show ?thesis using e by blast
  qed
qed

lemma Batch_do_returns:
  assumes "0 < limit"
  shows "\<exists>order r. Batch_do limit ops order st = Some r"
proof -
  let ?b0 = "Batch_start limit ops st"
  from drains[OF refl, where b = ?b0 and ops = ops] obtain order b' where
    r: "run ops order ?b0 = Some b'" and e: "active b' = []"
    and same: "order = [] \<longrightarrow> b' = ?b0" and ns: "order \<noteq> [] \<longrightarrow> \<not> startable ops b'"
    by blast
  have ns': "\<not> startable ops b'"
    using same ns fill_not_startable[where ops = ops] by (cases order) (auto simp: Batch_start_def)
  have t: "tracked ops b'" using r by (rule tracked_run)
  have lim: "concurrencyLimit b' = limit"
  proof -
    have "concurrencyLimit ?b0 = limit"
      by (rule Batch_start_keeps[where P = "\<lambda>b. concurrencyLimit b = limit"])
         (simp_all add: start_next_def)
    with r show ?thesis
      by (rule run_keeps[where P = "\<lambda>b. concurrencyLimit b = limit"])
         (auto simp: start_next_def)
  qed
  have "finished ops b'"
    using ns' e t lim assms by (auto simp: startable_def finished_def tracked_def)
  with r have "Batch_do limit ops order st = Some (firstError b', shared b')"
    by (simp add: Batch_do_def)
  then show ?thesis by blast
qed

lemma fill_firstError [simp]: "firstError (fill ops b) = firstError b"
  by (rule fill_keeps[where P = "\<lambda>x. firstError x = firstError b"])
     (simp_all add: start_next_def)

lemma fill_concurrencyLimit [simp]: "concurrencyLimit (fill ops b) = concurrencyLimit b"
  by (rule fill_keeps[where P = "\<lambda>x. concurrencyLimit x = concurrencyLimit b"])
     (simp_all add: start_next_def)

lemma fill_tracked: "tracked ops b \<Longrightarrow> tracked ops (fill ops b)"
  by (rule fill_keeps[where P = "tracked ops"]) (auto intro: tracked_start)

lemma run_tracked:
  "run ops order b = Some b' \<Longrightarrow> tracked ops b \<Longrightarrow> tracked ops b'"
  by (rule run_keeps[where P = "tracked ops"]) (auto intro: tracked_start tracked_finish)

lemma run_indices:
  "run ops order b = Some b' \<Longrightarrow> tracked ops b \<Longrightarrow> \<forall>i \<in> set order. i < length ops"
proof (induction order arbitrary: b)
  case Nil
  then show ?case by simp
next
  case (Cons i order)
  from Cons.prems(1) have act: "i \<in> set (active b)"
    and rest: "run ops order (fill ops (finish ops i b)) = Some b'"
    by (auto simp: settle_def split: if_splits)
  have "i < length ops" using act Cons.prems(2) by (auto simp: tracked_def)
  moreover have "tracked ops (fill ops (finish ops i b))"
    using Cons.prems(2) act by (simp add: fill_tracked tracked_finish)
  ultimately show ?case using Cons.IH[OF rest] by simp
qed

lemma run_not_startable:
  "run ops order b = Some b' \<Longrightarrow> \<not> startable ops b \<Longrightarrow> \<not> startable ops b'"
proof (induction order arbitrary: b)
  case Nil
  then show ?case by simp
next
  case (Cons i order)
  from Cons.prems(1) have rest: "run ops order (fill ops (finish ops i b)) = Some b'"
    by (auto simp: settle_def split: if_splits)
  show ?case using Cons.IH[OF rest] fill_not_startable by blast
qed

lemma run_concurrencyLimit:
  "run ops order b = Some b' \<Longrightarrow> concurrencyLimit b' = concurrencyLimit b"
  by (induction order arbitrary: b) (auto simp: settle_def split: if_splits)

text \<open>
  Every run of a batch with a positive cap can be continued to a complete one. The first
  error of a run whose operations stage a block, add its length to the progress and call
  the progress callback is the failure of the first task to fail.
\<close>

lemma batch_extends:
  assumes "0 < limit" and r0: "run ops order0 (Batch_start limit ops st) = Some b0"
  shows "\<exists>rest b. run ops (order0 @ rest) (Batch_start limit ops st) = Some b \<and> finished ops b"
proof -
  from drains[OF refl, where b = b0 and ops = ops] obtain rest b where
    r1: "run ops rest b0 = Some b" and e: "active b = []"
    by blast
  have r: "run ops (order0 @ rest) (Batch_start limit ops st) = Some b"
    using r0 r1 by (simp add: run_append)
  have "\<not> startable ops (Batch_start limit ops st)"
    unfolding Batch_start_def by (rule fill_not_startable)
  with r have ns: "\<not> startable ops b" by (rule run_not_startable)
  have t: "tracked ops b" using r by (rule tracked_run)
  have "concurrencyLimit b = limit"
    using run_concurrencyLimit[OF r] by (simp add: Batch_start_def)
  then have "finished ops b"
    using ns e t assms(1) by (auto simp: startable_def finished_def tracked_def)
  with r show ?thesis by blast
qed

lemma fill_progress:
  assumes "\<forall>i < length ops. \<forall>s. transferProgress (begin_op (ops ! i) s) = transferProgress s
                                  \<and> events (begin_op (ops ! i) s) = events s"
  shows "transferProgress (shared (fill ops b)) = transferProgress (shared b)
         \<and> events (shared (fill ops b)) = events (shared b)"
  by (rule fill_keeps[where P = "\<lambda>x. transferProgress (shared x) = transferProgress (shared b)
                                      \<and> events (shared x) = events (shared b)"])
     (use assms in \<open>auto simp: start_next_def startable_def\<close>)

lemma run_first_failure:
  assumes "run ops order b = Some b'" and "tracked ops b"
    and S: "\<forall>i < length ops. settles (ops ! i) = map_option RemoteError (stageBlock_result env i)"
    and B: "\<forall>i < length ops. \<forall>s. transferProgress (begin_op (ops ! i) s) = transferProgress s
                                  \<and> events (begin_op (ops ! i) s) = events s"
    and R: "\<forall>i < length ops. \<forall>s. resume_op (ops ! i) s =
              (let p = transferProgress s + len i;
                   evs = events s @ [\<lparr> loadedBytes = p, totalBytes = tot \<rparr>]
               in if prog
                  then (s\<lparr> transferProgress := p, events := evs \<rparr>,
                        map_option CallbackError (progress_result env evs))
                  else (s\<lparr> transferProgress := p \<rparr>, None))"
  shows "firstError b' =
           (case firstError b of
              Some e \<Rightarrow> Some e
            | None \<Rightarrow> first_failure env prog len tot order
                        (transferProgress (shared b)) (events (shared b)))"
  using assms(1,2)
proof (induction order arbitrary: b)
  case Nil
  then show ?case by (simp split: option.split)
next
  case (Cons i order)
  let ?b1 = "fill ops (finish ops i b)"
  from Cons.prems(1) have act: "i \<in> set (active b)"
    and rest: "run ops order ?b1 = Some b'"
    by (auto simp: settle_def split: if_splits)
  have i: "i < length ops" using act Cons.prems(2) by (auto simp: tracked_def)
  have t: "tracked ops ?b1"
    using Cons.prems(2) act by (simp add: fill_tracked tracked_finish)
  note IH = Cons.IH[OF rest t]
  have s: "settles (ops ! i) = map_option RemoteError (stageBlock_result env i)"
    using S i by simp
  note r = R[rule_format, OF i, of "shared b"]
  have sh: "transferProgress (shared ?b1) = transferProgress (shared (finish ops i b))"
    "events (shared ?b1) = events (shared (finish ops i b))"
    using fill_progress[OF B, of "finish ops i b"] by simp_all
  show ?case
  proof (cases "firstError b")
    case (Some e)
    then show ?thesis unfolding IH by (simp add: finish_firstError)
  next
    case None
    show ?thesis
    proof (cases "stageBlock_result env i")
      case (Some m)
      then show ?thesis unfolding IH using None s by (simp add: finish_firstError)
    next
      case sn: None
      show ?thesis
        unfolding IH sh using None s sn r
        by (auto simp: finish_firstError finish_shared Let_def split: option.split)
    qed
  qed
qed

section \<open>The shared variables of the two uploads\<close>

text \<open>
  In every state a schedule leads to, \<^verbatim>\<open>blockList\<close> holds the IDs of the blocks
  started, in the order of their indices, one \<^verbatim>\<open>stageBlock\<close> has been issued for each
  of them, and \<^verbatim>\<open>transferProgress\<close> is the sum of the content lengths of the blocks
  whose operation has run to its end.
\<close>

lemma upload_operations_length [simp]:
  "length (upload_operations gen env prog bs sz) = nat (numBlocks_of sz bs)"
  by (simp add: upload_operations_def)

lemma upload_operations_nth:
  "i < nat (numBlocks_of sz bs) \<Longrightarrow>
   upload_operations gen env prog bs sz ! i =
     upload_operation gen env prog bs sz (numBlocks_of sz bs) i"
  by (simp add: upload_operations_def)

lemma upload_batch_state:
  fixes gen :: "nat \<Rightarrow> 'id" and env :: "('id, 'r) remote" and prog bs sz
  defines "ops \<equiv> upload_operations gen env prog bs sz"
  assumes r: "run ops order (Batch_start limit ops initial) = Some b"
  shows "blockList (shared b) = map gen [0..<cursor b]"
    and "calls (shared b) =
           map (\<lambda>i. StageBlock (gen i) (bs * int i) (contentLength bs sz (numBlocks_of sz bs) i))
             [0..<cursor b]"
    and "transferProgress (shared b) =
           (\<Sum>i \<in> completed ops b. contentLength bs sz (numBlocks_of sz bs) i)"
proof -
  define P where "P b \<longleftrightarrow> tracked ops b
      \<and> blockList (shared b) = map gen [0..<cursor b]
      \<and> calls (shared b) =
           map (\<lambda>i. StageBlock (gen i) (bs * int i) (contentLength bs sz (numBlocks_of sz bs) i))
             [0..<cursor b]
      \<and> transferProgress (shared b) =
           (\<Sum>i \<in> completed ops b. contentLength bs sz (numBlocks_of sz bs) i)"
    for b :: "'id transfer Batch"
  have init: "P \<lparr> concurrencyLimit = limit, cursor = 0, active = [], firstError = None,
                   shared = initial \<rparr>"
    by (simp add: P_def tracked_initial initial_def completed_def)
  have start: "P (start_next ops b)" if "P b" "startable ops b" for b
  proof -
    have c: "cursor b < nat (numBlocks_of sz bs)"
      using that(2) by (simp add: startable_def ops_def)
    have op: "ops ! cursor b = upload_operation gen env prog bs sz (numBlocks_of sz bs) (cursor b)"
      unfolding ops_def using c by (rule upload_operations_nth)
    have t: "tracked ops (start_next ops b)" using that by (simp add: P_def tracked_start)
    have cm: "completed ops (start_next ops b) = completed ops b"
      using that(1) by (simp add: P_def completed_start)
    show ?thesis
      unfolding P_def cm using t that(1)
      by (simp add: P_def start_next_def op upload_operation_def)
  qed
  have fin: "P (finish ops i b)" if "P b" "i \<in> set (active b)" for b i
  proof -
    have tr: "tracked ops b" using that(1) by (simp add: P_def)
    have i: "i < nat (numBlocks_of sz bs)"
      using tr that(2) by (auto simp: tracked_def ops_def)
    have op: "ops ! i = upload_operation gen env prog bs sz (numBlocks_of sz bs) i"
      unfolding ops_def using i by (rule upload_operations_nth)
    have t: "tracked ops (finish ops i b)" using tr that(2) by (rule tracked_finish)
    note cm = completed_finish[OF tr that(2)]
    have cur: "cursor (finish ops i b) = cursor b" by simp
    show ?thesis
    proof (cases "settles (ops ! i)")
      case None
      then have sh: "shared (finish ops i b) = fst (resume_op (ops ! i) (shared b))"
        by (simp add: finish_shared)
      show ?thesis
        unfolding P_def cur sh cm(1) using t that(1) None cm(2)
        by (simp add: P_def op upload_operation_def Let_def finite_completed)
    next
      case (Some e)
      then have sh: "shared (finish ops i b) = shared b"
        by (simp add: finish_shared)
      show ?thesis
        unfolding P_def cur sh cm(1) using t that(1) Some
        by (simp add: P_def)
    qed
  qed
  have "P (Batch_start limit ops initial)"
    using init start by (rule Batch_start_keeps)
  with r have "P b" using start fin by (rule run_keeps)
  then show "blockList (shared b) = map gen [0..<cursor b]"
    and "calls (shared b) =
           map (\<lambda>i. StageBlock (gen i) (bs * int i) (contentLength bs sz (numBlocks_of sz bs) i))
             [0..<cursor b]"
    and "transferProgress (shared b) =
           (\<Sum>i \<in> completed ops b. contentLength bs sz (numBlocks_of sz bs) i)"
    by (simp_all add: P_def)
qed

lemma stream_handlers_length [simp]:
  "length (stream_handlers gen env prog streamLength bufferSize) =
     length (buffer_lengths streamLength bufferSize)"
  by (simp add: stream_handlers_def)

lemma stream_handlers_nth:
  "k < length (buffer_lengths streamLength bufferSize) \<Longrightarrow>
   stream_handlers gen env prog streamLength bufferSize ! k =
     stream_handler gen env prog bufferSize (k, buffer_lengths streamLength bufferSize ! k)"
  by (simp add: stream_handlers_def nth_enumerate_eq)

lemma stream_batch_state:
  fixes gen :: "nat \<Rightarrow> 'id" and env :: "('id, 'r) remote" and prog streamLength bufferSize
  defines "ops \<equiv> stream_handlers gen env prog streamLength bufferSize"
    and "lens \<equiv> buffer_lengths streamLength bufferSize"
  assumes r: "run ops order (Batch_start limit ops initial) = Some b"
  shows "blockList (shared b) = map gen [0..<cursor b]"
    and "blockNum (shared b) = cursor b"
    and "calls (shared b) =
           map (\<lambda>k. StageBlock (gen k) (int (bufferSize * k)) (int (lens ! k))) [0..<cursor b]"
    and "transferProgress (shared b) = (\<Sum>k \<in> completed ops b. int (lens ! k))"
proof -
  define P where "P b \<longleftrightarrow> tracked ops b
      \<and> blockList (shared b) = map gen [0..<cursor b]
      \<and> blockNum (shared b) = cursor b
      \<and> calls (shared b) =
           map (\<lambda>k. StageBlock (gen k) (int (bufferSize * k)) (int (lens ! k))) [0..<cursor b]
      \<and> transferProgress (shared b) = (\<Sum>k \<in> completed ops b. int (lens ! k))"
    for b :: "'id transfer Batch"
  have init: "P \<lparr> concurrencyLimit = limit, cursor = 0, active = [], firstError = None,
                   shared = initial \<rparr>"
    by (simp add: P_def tracked_initial initial_def completed_def)
  have start: "P (start_next ops b)" if "P b" "startable ops b" for b
  proof -
    have c: "cursor b < length lens"
      using that(2) by (simp add: startable_def ops_def lens_def)
    have op: "ops ! cursor b = stream_handler gen env prog bufferSize (cursor b, lens ! cursor b)"
      unfolding ops_def lens_def using c[unfolded lens_def] by (rule stream_handlers_nth)
    have t: "tracked ops (start_next ops b)" using that by (simp add: P_def tracked_start)
    have cm: "completed ops (start_next ops b) = completed ops b"
      using that(1) by (simp add: P_def completed_start)
    show ?thesis
      unfolding P_def cm using t that(1)
      by (simp add: P_def start_next_def op stream_handler_def Let_def)
  qed
  have fin: "P (finish ops i b)" if "P b" "i \<in> set (active b)" for b i
  proof -
    have tr: "tracked ops b" using that(1) by (simp add: P_def)
    have i: "i < length lens"
      using tr that(2) by (auto simp: tracked_def ops_def lens_def)
    have op: "ops ! i = stream_handler gen env prog bufferSize (i, lens ! i)"
      unfolding ops_def lens_def using i[unfolded lens_def] by (rule stream_handlers_nth)
    have t: "tracked ops (finish ops i b)" using tr that(2) by (rule tracked_finish)
    note cm = completed_finish[OF tr that(2)]
    have cur: "cursor (finish ops i b) = cursor b" by simp
    show ?thesis
    proof (cases "settles (ops ! i)")
      case None
      then have sh: "shared (finish ops i b) = fst (resume_op (ops ! i) (shared b))"
        by (simp add: finish_shared)
      show ?thesis
        unfolding P_def cur sh cm(1) using t that(1) None cm(2)
        by (simp add: P_def op stream_handler_def Let_def finite_completed)
    next
      case (Some e)
      then have sh: "shared (finish ops i b) = shared b"
        by (simp add: finish_shared)
      show ?thesis
        unfolding P_def cur sh cm(1) using t that(1) Some
        by (simp add: P_def)
    qed
  qed
  have "P (Batch_start limit ops initial)"
    using init start by (rule Batch_start_keeps)
  with r have "P b" using start fin by (rule run_keeps)
  then show "blockList (shared b) = map gen [0..<cursor b]"
    and "blockNum (shared b) = cursor b"
    and "calls (shared b) =
           map (\<lambda>k. StageBlock (gen k) (int (bufferSize * k)) (int (lens ! k))) [0..<cursor b]"
    and "transferProgress (shared b) = (\<Sum>k \<in> completed ops b. int (lens ! k))"
    by (simp_all add: P_def)
qed

section \<open>How the two uploads end\<close>

text \<open>The outcome of an upload, from the state in which its batch has finished.\<close>

lemma upload_chunked_end:
  assumes up: "UploadResetableStreamToBlockBlob C gen env order sz opts = Some out"
    and o: "upload_options C sz opts = (opts', Inr bs)"
    and big: "BLOCK_BLOB_MAX_UPLOAD_BLOB_BYTES C < sz"
    and n: "numBlocks_of sz bs \<le> BLOCK_BLOB_MAX_BLOCKS C"
  shows "\<exists>b. run (upload_operations gen env (progress opts') bs sz) order
              (Batch_start (Batch_new C (parallelism opts'))
                 (upload_operations gen env (progress opts') bs sz) initial) = Some b
           \<and> finished (upload_operations gen env (progress opts') bs sz) b
           \<and> out = (case firstError b of
                 Some e \<Rightarrow> \<lparr> result = Inl e, options_after = opts', final = shared b \<rparr>
               | None \<Rightarrow> \<lparr> result = rejected (commitBlockList_result env (blockList (shared b))),
                           options_after = opts',
                           final = (shared b)\<lparr> calls := calls (shared b) @
                                          [CommitBlockList (blockList (shared b))] \<rparr> \<rparr>)"
  using up o big n
  by (auto simp: UploadResetableStreamToBlockBlob_def Batch_do_def Let_def
           split: option.split_asm if_split_asm)

lemma stream_end:
  assumes up: "UploadStreamToBlockBlob gen env order streamLength bufferSize maxBuffers opts = Some out"
  shows "\<exists>b. run (stream_handlers gen env (st_progress (stream_options opts)) streamLength bufferSize)
              order
              (Batch_start (nat \<lceil>real maxBuffers / 4 * 3\<rceil>)
                 (stream_handlers gen env (st_progress (stream_options opts)) streamLength bufferSize)
                 initial) = Some b
           \<and> finished (stream_handlers gen env (st_progress (stream_options opts)) streamLength bufferSize) b
           \<and> out = (case firstError b of
                 Some e \<Rightarrow> \<lparr> result = Inl e, options_after = stream_options opts, final = shared b \<rparr>
               | None \<Rightarrow> \<lparr> result = rejected (commitBlockList_result env (blockList (shared b))),
                           options_after = stream_options opts,
                           final = (shared b)\<lparr> calls := calls (shared b) @
                                          [CommitBlockList (blockList (shared b))] \<rparr> \<rparr>)"
  using up
  by (auto simp: UploadStreamToBlockBlob_def BufferScheduler_do_def Batch_do_def Let_def
           split: option.split_asm if_split_asm)

text \<open>
  The first error of the batch of either upload, and how an upload ends: with the error
  of the first task to fail and no commit, or with the commit of all blocks.
\<close>

lemma upload_settles:
  "k < nat (numBlocks_of sz bs) \<Longrightarrow>
   settles (upload_operations gen env prog bs sz ! k) = map_option RemoteError (stageBlock_result env k)"
  by (simp add: upload_operations_nth upload_operation_def)

lemma stream_settles:
  "k < length (buffer_lengths streamLength bufferSize) \<Longrightarrow>
   settles (stream_handlers gen env prog streamLength bufferSize ! k) =
     map_option RemoteError (stageBlock_result env k)"
  by (simp add: stream_handlers_nth stream_handler_def)

lemma upload_throws:
  assumes "k < nat (numBlocks_of sz bs)"
    and "snd (resume_op (upload_operations gen env prog bs sz ! k) st) = Some e"
  shows "\<exists>m. e = CallbackError m"
  using assms
  by (auto simp: upload_operations_nth upload_operation_def Let_def split: if_split_asm)

lemma upload_first_failure:
  assumes "run (upload_operations gen env prog bs sz) order
             (Batch_start limit (upload_operations gen env prog bs sz) initial) = Some b"
  shows "firstError b =
           first_failure env prog (contentLength bs sz (numBlocks_of sz bs)) (Some sz) order 0 []"
proof -
  let ?ops = "upload_operations gen env prog bs sz"
  have t0: "tracked ?ops (Batch_start limit ?ops initial)"
    unfolding Batch_start_def by (rule fill_tracked) (rule tracked_initial)
  have B: "\<forall>i < length ?ops. \<forall>s. transferProgress (begin_op (?ops ! i) s) = transferProgress s
                                  \<and> events (begin_op (?ops ! i) s) = events s"
    by (simp add: upload_operations_nth upload_operation_def)
  have s0: "transferProgress (shared (Batch_start limit ?ops initial)) = 0"
    "events (shared (Batch_start limit ?ops initial)) = []"
    unfolding Batch_start_def using fill_progress[OF B] by (simp_all add: initial_def)
  have "firstError b =
           (case firstError (Batch_start limit ?ops initial) of
              Some e \<Rightarrow> Some e
            | None \<Rightarrow> first_failure env prog (contentLength bs sz (numBlocks_of sz bs)) (Some sz) order
                        (transferProgress (shared (Batch_start limit ?ops initial)))
                        (events (shared (Batch_start limit ?ops initial))))"
    using assms t0
  proof (rule run_first_failure)
    show "\<forall>i < length ?ops. settles (?ops ! i) = map_option RemoteError (stageBlock_result env i)"
      by (simp add: upload_settles)
    show "\<forall>i < length ?ops. \<forall>s. transferProgress (begin_op (?ops ! i) s) = transferProgress s
                                  \<and> events (begin_op (?ops ! i) s) = events s"
      by (rule B)
    show "\<forall>i < length ?ops. \<forall>s. resume_op (?ops ! i) s =
              (let p = transferProgress s + contentLength bs sz (numBlocks_of sz bs) i;
                   evs = events s @ [\<lparr> loadedBytes = p, totalBytes = Some sz \<rparr>]
               in if prog
                  then (s\<lparr> transferProgress := p, events := evs \<rparr>,
                        map_option CallbackError (progress_result env evs))
                  else (s\<lparr> transferProgress := p \<rparr>, None))"
      by (simp add: upload_operations_nth upload_operation_def)
  qed
  then show ?thesis unfolding s0 by (simp add: Batch_start_def)
qed

lemma stream_first_failure:
  assumes "run (stream_handlers gen env prog streamLength bufferSize) order
             (Batch_start limit (stream_handlers gen env prog streamLength bufferSize) initial) = Some b"
  shows "firstError b =
           first_failure env prog (\<lambda>k. int (buffer_lengths streamLength bufferSize ! k)) None order 0 []"
proof -
  let ?ops = "stream_handlers gen env prog streamLength bufferSize"
  have t0: "tracked ?ops (Batch_start limit ?ops initial)"
    unfolding Batch_start_def by (rule fill_tracked) (rule tracked_initial)
  have B: "\<forall>i < length ?ops. \<forall>s. transferProgress (begin_op (?ops ! i) s) = transferProgress s
                                  \<and> events (begin_op (?ops ! i) s) = events s"
    by (simp add: stream_handlers_nth stream_handler_def Let_def)
  have s0: "transferProgress (shared (Batch_start limit ?ops initial)) = 0"
    "events (shared (Batch_start limit ?ops initial)) = []"
    unfolding Batch_start_def using fill_progress[OF B] by (simp_all add: initial_def)
  have "firstError b =
           (case firstError (Batch_start limit ?ops initial) of
              Some e \<Rightarrow> Some e
            | None \<Rightarrow> first_failure env prog (\<lambda>k. int (buffer_lengths streamLength bufferSize ! k)) None order
                        (transferProgress (shared (Batch_start limit ?ops initial)))
                        (events (shared (Batch_start limit ?ops initial))))"
    using assms t0
  proof (rule run_first_failure)
    show "\<forall>i < length ?ops. settles (?ops ! i) = map_option RemoteError (stageBlock_result env i)"
      by (simp add: stream_settles)
    show "\<forall>i < length ?ops. \<forall>s. transferProgress (begin_op (?ops ! i) s) = transferProgress s
                                  \<and> events (begin_op (?ops ! i) s) = events s"
      by (rule B)
    show "\<forall>i < length ?ops. \<forall>s. resume_op (?ops ! i) s =
              (let p = transferProgress s + int (buffer_lengths streamLength bufferSize ! i);
                   evs = events s @ [\<lparr> loadedBytes = p, totalBytes = None \<rparr>]
               in if prog
                  then (s\<lparr> transferProgress := p, events := evs \<rparr>,
                        map_option CallbackError (progress_result env evs))
                  else (s\<lparr> transferProgress := p \<rparr>, None))"
      by (simp add: stream_handlers_nth stream_handler_def)
  qed
  then show ?thesis unfolding s0 by (simp add: Batch_start_def)
qed

lemma first_failure_quiet:
  assumes "\<forall>k \<in> set order. stageBlock_result env k = None"
    and "\<not> prog \<or> (\<forall>evs. progress_result env evs = None)"
  shows "first_failure env prog len tot order p evs = None"
  using assms(1)
  by (induction order arbitrary: p evs) (use assms(2) in \<open>auto simp: Let_def\<close>)

lemma upload_chunked_outcome:
  assumes up: "UploadResetableStreamToBlockBlob C gen env order sz opts = Some out"
    and o: "upload_options C sz opts = (opts', Inr bs)"
    and big: "BLOCK_BLOB_MAX_UPLOAD_BLOB_BYTES C < sz"
    and n: "numBlocks_of sz bs \<le> BLOCK_BLOB_MAX_BLOCKS C"
  shows "case first_failure env (progress opts') (contentLength bs sz (numBlocks_of sz bs))
                (Some sz) order 0 [] of
           Some e \<Rightarrow> result out = Inl e \<and> (\<forall>ids. CommitBlockList ids \<notin> set (calls (final out)))
         | None \<Rightarrow>
             (\<forall>k < nat (numBlocks_of sz bs). stageBlock_result env k = None)
             \<and> calls (final out) =
                  map (\<lambda>i. StageBlock (gen i) (bs * int i)
                              (contentLength bs sz (numBlocks_of sz bs) i))
                    [0..<nat (numBlocks_of sz bs)]
                  @ [CommitBlockList (map gen [0..<nat (numBlocks_of sz bs)])]
             \<and> result out =
                  rejected (commitBlockList_result env (map gen [0..<nat (numBlocks_of sz bs)]))"
proof -
  let ?ops = "upload_operations gen env (progress opts') bs sz"
  let ?n = "nat (numBlocks_of sz bs)"
  from upload_chunked_end[OF up o big n] obtain b where
    r: "run ?ops order (Batch_start (Batch_new C (parallelism opts')) ?ops initial) = Some b"
    and f: "finished ?ops b"
    and out: "out = (case firstError b of
                 Some e \<Rightarrow> \<lparr> result = Inl e, options_after = opts', final = shared b \<rparr>
               | None \<Rightarrow> \<lparr> result = rejected (commitBlockList_result env (blockList (shared b))),
                           options_after = opts',
                           final = (shared b)\<lparr> calls := calls (shared b) @
                                          [CommitBlockList (blockList (shared b))] \<rparr> \<rparr>)"
    by blast
  note st = upload_batch_state[OF r]
  note ff = upload_first_failure[OF r]
  have t: "tracked ?ops b" using r by (rule tracked_run)
  show ?thesis
  proof (cases "firstError b")
    case (Some e)
    have res: "result out = Inl e" and fin: "final out = shared b"
      using out Some by simp_all
    have "\<forall>ids. CommitBlockList ids \<notin> set (calls (final out))"
      unfolding fin st(2) by auto
    with res show ?thesis unfolding ff[symmetric] Some by simp
  next
    case None
    from finished_without_error(1,2)[OF t f None]
    have c: "cursor b = ?n" and s: "\<forall>i < ?n. settles (?ops ! i) = None" by simp_all
    have ok: "\<forall>k < ?n. stageBlock_result env k = None"
      using s by (simp add: upload_settles)
    have bl: "blockList (shared b) = map gen [0..<?n]" using st(1) c by simp
    have cl: "calls (shared b) = map (\<lambda>i. StageBlock (gen i) (bs * int i)
                              (contentLength bs sz (numBlocks_of sz bs) i)) [0..<?n]"
      using st(2) c by simp
    have "result out = rejected (commitBlockList_result env (map gen [0..<?n]))"
      and "calls (final out) = calls (shared b) @ [CommitBlockList (map gen [0..<?n])]"
      using out None bl by simp_all
    with ok show ?thesis unfolding ff[symmetric] None cl by simp
  qed
qed

lemma stream_outcome:
  assumes up: "UploadStreamToBlockBlob gen env order streamLength bufferSize maxBuffers opts = Some out"
  shows "case first_failure env (st_progress (stream_options opts))
                (\<lambda>k. int (buffer_lengths streamLength bufferSize ! k)) None order 0 [] of
           Some e \<Rightarrow> result out = Inl e \<and> (\<forall>ids. CommitBlockList ids \<notin> set (calls (final out)))
         | None \<Rightarrow>
             (\<forall>k < length (buffer_lengths streamLength bufferSize). stageBlock_result env k = None)
             \<and> calls (final out) =
                  map (\<lambda>k. StageBlock (gen k) (int (bufferSize * k))
                              (int (buffer_lengths streamLength bufferSize ! k)))
                    [0..<length (buffer_lengths streamLength bufferSize)]
                  @ [CommitBlockList (map gen [0..<length (buffer_lengths streamLength bufferSize)])]
             \<and> result out =
                  rejected (commitBlockList_result env
                    (map gen [0..<length (buffer_lengths streamLength bufferSize)]))"
proof -
  let ?ops = "stream_handlers gen env (st_progress (stream_options opts)) streamLength bufferSize"
  let ?n = "length (buffer_lengths streamLength bufferSize)"
  from stream_end[OF up] obtain b where
    r: "run ?ops order (Batch_start (nat \<lceil>real maxBuffers / 4 * 3\<rceil>) ?ops initial) = Some b"
    and f: "finished ?ops b"
    and out: "out = (case firstError b of
                 Some e \<Rightarrow> \<lparr> result = Inl e, options_after = stream_options opts, final = shared b \<rparr>
               | None \<Rightarrow> \<lparr> result = rejected (commitBlockList_result env (blockList (shared b))),
                           options_after = stream_options opts,
                           final = (shared b)\<lparr> calls := calls (shared b) @
                                          [CommitBlockList (blockList (shared b))] \<rparr> \<rparr>)"
    by blast
  note st = stream_batch_state[OF r]
  note ff = stream_first_failure[OF r]
  have t: "tracked ?ops b" using r by (rule tracked_run)
  show ?thesis
  proof (cases "firstError b")
    case (Some e)
    have res: "result out = Inl e" and fin: "final out = shared b"
      using out Some by simp_all
    have "\<forall>ids. CommitBlockList ids \<notin> set (calls (final out))"
      unfolding fin st(3) by auto
    with res show ?thesis unfolding ff[symmetric] Some by simp
  next
    case None
    from finished_without_error(1,2)[OF t f None]
    have c: "cursor b = ?n" and s: "\<forall>i < ?n. settles (?ops ! i) = None" by simp_all
    have ok: "\<forall>k < ?n. stageBlock_result env k = None"
      using s by (simp add: stream_settles)
    have bl: "blockList (shared b) = map gen [0..<?n]" using st(1) c by simp
    have cl: "calls (shared b) = map (\<lambda>k. StageBlock (gen k) (int (bufferSize * k))
                              (int (buffer_lengths streamLength bufferSize ! k))) [0..<?n]"
      using st(3) c by simp
    have "result out = rejected (commitBlockList_result env (map gen [0..<?n]))"
      and "calls (final out) = calls (shared b) @ [CommitBlockList (map gen [0..<?n])]"
      using out None bl by simp_all
    with ok show ?thesis unfolding ff[symmetric] None cl by simp
  qed
qed

lemma upload_extends:
  assumes o: "upload_options C sz opts = (opts', Inr bs)"
    and big: "BLOCK_BLOB_MAX_UPLOAD_BLOB_BYTES C < sz"
    and n: "numBlocks_of sz bs \<le> BLOCK_BLOB_MAX_BLOCKS C"
    and cap: "0 < Batch_new C (parallelism opts')"
    and r0: "run (upload_operations gen env (progress opts') bs sz) order0
               (Batch_start (Batch_new C (parallelism opts'))
                  (upload_operations gen env (progress opts') bs sz) initial) = Some b0"
  shows "\<exists>rest out. UploadResetableStreamToBlockBlob C gen env (order0 @ rest) sz opts = Some out"
proof -
  let ?ops = "upload_operations gen env (progress opts') bs sz"
  from batch_extends[OF cap r0] obtain rest b where
    r: "run ?ops (order0 @ rest) (Batch_start (Batch_new C (parallelism opts')) ?ops initial) = Some b"
    and f: "finished ?ops b"
    by blast
  then have "Batch_do (Batch_new C (parallelism opts')) ?ops (order0 @ rest) initial =
               Some (firstError b, shared b)"
    by (simp add: Batch_do_def)
  with o big n have "\<exists>out. UploadResetableStreamToBlockBlob C gen env (order0 @ rest) sz opts = Some out"
    by (cases "firstError b") (auto simp: UploadResetableStreamToBlockBlob_def Let_def)
  then show ?thesis by blast
qed

lemma stream_extends:
  assumes "0 < bufferSize" and "0 < maxBuffers"
    and r0: "run (stream_handlers gen env (st_progress (stream_options opts)) streamLength bufferSize)
               order0
               (Batch_start (nat \<lceil>real maxBuffers / 4 * 3\<rceil>)
                  (stream_handlers gen env (st_progress (stream_options opts)) streamLength bufferSize)
                  initial) = Some b0"
  shows "\<exists>rest out.
           UploadStreamToBlockBlob gen env (order0 @ rest) streamLength bufferSize maxBuffers opts
             = Some out"
proof -
  let ?ops = "stream_handlers gen env (st_progress (stream_options opts)) streamLength bufferSize"
  have "0 < real maxBuffers / 4 * 3" using assms(2) by simp
  then have cap: "0 < nat \<lceil>real maxBuffers / 4 * 3\<rceil>" by simp
  from batch_extends[OF cap r0] obtain rest b where
    r: "run ?ops (order0 @ rest) (Batch_start (nat \<lceil>real maxBuffers / 4 * 3\<rceil>) ?ops initial) = Some b"
    and f: "finished ?ops b"
    by blast
  then have "Batch_do (nat \<lceil>real maxBuffers / 4 * 3\<rceil>) ?ops (order0 @ rest) initial =
               Some (firstError b, shared b)"
    by (simp add: Batch_do_def)
  with assms(1,2) have "\<exists>out.
      UploadStreamToBlockBlob gen env (order0 @ rest) streamLength bufferSize maxBuffers opts = Some out"
    by (cases "firstError b")
       (auto simp: UploadStreamToBlockBlob_def BufferScheduler_do_def Let_def)
  then show ?thesis by blast
qed

text \<open>
  Claim C1. On the chunked path of \<^verbatim>\<open>UploadResetableStreamToBlockBlob\<close> (the options
  pass the checks, the size exceeds the limit of a single upload call, the number of
  blocks is within the limit) and in \<^verbatim>\<open>UploadStreamToBlockBlob\<close>:

  \<^item> the upload returns: with a positive cap, every state that a schedule leads the batch
    to has a continuation of that schedule under which the function returns;

  \<^item> whenever it returns, under whatever schedule: if a task fails (its \<^verbatim>\<open>stageBlock\<close>
    call is rejected, or the progress callback it calls throws), the function returns the
    error of the task that is the first to fail in the schedule, and \<^verbatim>\<open>commitBlockList\<close>
    is not called; if no task fails, the staging of every block has succeeded,
    \<^verbatim>\<open>commitBlockList\<close> is called exactly once, as the last remote call after the
    \<^verbatim>\<open>stageBlock\<close> calls of all blocks, and its result is returned.
\<close>

theorem C1_commit_only_after_all_blocks:
  "(upload_options C sz opts = (opts', Inr bs) \<longrightarrow>
    BLOCK_BLOB_MAX_UPLOAD_BLOB_BYTES C < sz \<longrightarrow>
    numBlocks_of sz bs \<le> BLOCK_BLOB_MAX_BLOCKS C \<longrightarrow>
      (0 < Batch_new C (parallelism opts') \<longrightarrow>
         (\<forall>order0 b0.
            run (upload_operations gen env (progress opts') bs sz) order0
              (Batch_start (Batch_new C (parallelism opts'))
                 (upload_operations gen env (progress opts') bs sz) initial) = Some b0 \<longrightarrow>
            (\<exists>rest out.
               UploadResetableStreamToBlockBlob C gen env (order0 @ rest) sz opts = Some out)))
      \<and> (\<forall>order out.
            UploadResetableStreamToBlockBlob C gen env order sz opts = Some out \<longrightarrow>
            (case first_failure env (progress opts') (contentLength bs sz (numBlocks_of sz bs))
                    (Some sz) order 0 [] of
               Some e \<Rightarrow>
                 result out = Inl e \<and> (\<forall>ids. CommitBlockList ids \<notin> set (calls (final out)))
             | None \<Rightarrow>
                 (\<forall>k < nat (numBlocks_of sz bs). stageBlock_result env k = None)
                 \<and> calls (final out) =
                      map (\<lambda>i. StageBlock (gen i) (bs * int i)
                                  (contentLength bs sz (numBlocks_of sz bs) i))
                        [0..<nat (numBlocks_of sz bs)]
                      @ [CommitBlockList (map gen [0..<nat (numBlocks_of sz bs)])]
                 \<and> result out =
                      rejected (commitBlockList_result env
                        (map gen [0..<nat (numBlocks_of sz bs)])))))
   \<and> (0 < bufferSize \<longrightarrow> 0 < maxBuffers \<longrightarrow>
        (\<forall>order0 b0.
           run (stream_handlers gen' env' (st_progress (stream_options sopts)) streamLength bufferSize)
             order0
             (Batch_start (nat \<lceil>real maxBuffers / 4 * 3\<rceil>)
                (stream_handlers gen' env' (st_progress (stream_options sopts)) streamLength
                   bufferSize)
                initial) = Some b0 \<longrightarrow>
           (\<exists>rest out.
              UploadStreamToBlockBlob gen' env' (order0 @ rest) streamLength bufferSize maxBuffers
                sopts = Some out)))
   \<and> (\<forall>order out.
         UploadStreamToBlockBlob gen' env' order streamLength bufferSize maxBuffers sopts = Some out \<longrightarrow>
         (case first_failure env' (st_progress (stream_options sopts))
                 (\<lambda>k. int (buffer_lengths streamLength bufferSize ! k)) None order 0 [] of
            Some e \<Rightarrow>
              result out = Inl e \<and> (\<forall>ids. CommitBlockList ids \<notin> set (calls (final out)))
          | None \<Rightarrow>
              (\<forall>k < length (buffer_lengths streamLength bufferSize). stageBlock_result env' k = None)
              \<and> calls (final out) =
                   map (\<lambda>k. StageBlock (gen' k) (int (bufferSize * k))
                               (int (buffer_lengths streamLength bufferSize ! k)))
                     [0..<length (buffer_lengths streamLength bufferSize)]
                   @ [CommitBlockList
                        (map gen' [0..<length (buffer_lengths streamLength bufferSize)])]
              \<and> result out =
                   rejected (commitBlockList_result env'
                     (map gen' [0..<length (buffer_lengths streamLength bufferSize)]))))"
proof (intro conjI impI allI)
  fix order0 b0
  assume "upload_options C sz opts = (opts', Inr bs)"
    "BLOCK_BLOB_MAX_UPLOAD_BLOB_BYTES C < sz"
    "numBlocks_of sz bs \<le> BLOCK_BLOB_MAX_BLOCKS C"
    "0 < Batch_new C (parallelism opts')"
    "run (upload_operations gen env (progress opts') bs sz) order0
              (Batch_start (Batch_new C (parallelism opts'))
                 (upload_operations gen env (progress opts') bs sz) initial) = Some b0"
  then show "\<exists>rest out.
               UploadResetableStreamToBlockBlob C gen env (order0 @ rest) sz opts = Some out"
    by (rule upload_extends)
next
  fix order out
  assume "upload_options C sz opts = (opts', Inr bs)"
    "BLOCK_BLOB_MAX_UPLOAD_BLOB_BYTES C < sz"
    "numBlocks_of sz bs \<le> BLOCK_BLOB_MAX_BLOCKS C"
    "UploadResetableStreamToBlockBlob C gen env order sz opts = Some out"
  from upload_chunked_outcome[OF this(4,1,2,3)]
  show "case first_failure env (progress opts') (contentLength bs sz (numBlocks_of sz bs))
                    (Some sz) order 0 [] of
               Some e \<Rightarrow>
                 result out = Inl e \<and> (\<forall>ids. CommitBlockList ids \<notin> set (calls (final out)))
             | None \<Rightarrow>
                 (\<forall>k < nat (numBlocks_of sz bs). stageBlock_result env k = None)
                 \<and> calls (final out) =
                      map (\<lambda>i. StageBlock (gen i) (bs * int i)
                                  (contentLength bs sz (numBlocks_of sz bs) i))
                        [0..<nat (numBlocks_of sz bs)]
                      @ [CommitBlockList (map gen [0..<nat (numBlocks_of sz bs)])]
                 \<and> result out =
                      rejected (commitBlockList_result env
                        (map gen [0..<nat (numBlocks_of sz bs)]))" .
next
  fix order0 b0
  assume "0 < bufferSize" "0 < maxBuffers"
    "run (stream_handlers gen' env' (st_progress (stream_options sopts)) streamLength bufferSize)
             order0
             (Batch_start (nat \<lceil>real maxBuffers / 4 * 3\<rceil>)
                (stream_handlers gen' env' (st_progress (stream_options sopts)) streamLength
                   bufferSize)
                initial) = Some b0"
  then show "\<exists>rest out.
              UploadStreamToBlockBlob gen' env' (order0 @ rest) streamLength bufferSize maxBuffers
                sopts = Some out"
    by (rule stream_extends)
next
  fix order out
  assume "UploadStreamToBlockBlob gen' env' order streamLength bufferSize maxBuffers sopts = Some out"
  from stream_outcome[OF this]
  show "case first_failure env' (st_progress (stream_options sopts))
                 (\<lambda>k. int (buffer_lengths streamLength bufferSize ! k)) None order 0 [] of
            Some e \<Rightarrow>
              result out = Inl e \<and> (\<forall>ids. CommitBlockList ids \<notin> set (calls (final out)))
          | None \<Rightarrow>
              (\<forall>k < length (buffer_lengths streamLength bufferSize). stageBlock_result env' k = None)
              \<and> calls (final out) =
                   map (\<lambda>k. StageBlock (gen' k) (int (bufferSize * k))
                               (int (buffer_lengths streamLength bufferSize ! k)))
                     [0..<length (buffer_lengths streamLength bufferSize)]
                   @ [CommitBlockList
                        (map gen' [0..<length (buffer_lengths streamLength bufferSize)])]
              \<and> result out =
                   rejected (commitBlockList_result env'
                     (map gen' [0..<length (buffer_lengths streamLength bufferSize)]))" .
qed

text \<open>
  The theorem at an upload of 300000000 bytes in three blocks under the cap 2, block 1
  staged first: with the staging of block 1 failing, with all three blocks staged, and
  with a progress callback that throws at its second call; and at a stream of 10 bytes in
  buffers of 4 under the cap 2, with the staging of block 1 failing and with all three
  blocks staged. In both uploads the run in which block 1 has settled is continued to a
  return.
\<close>

theorem C1_commit_only_after_all_blocks_witness:
  "first_failure block_1_fails False
       (contentLength 100000000 300000000 (numBlocks_of 300000000 100000000))
       (Some 300000000) [1, 0] 0 [] = Some (RemoteError ''503'')
   \<and> UploadResetableStreamToBlockBlob service_constants (\<lambda>i. i) block_1_fails [1, 0] 300000000
       (no_upload_options\<lparr> blockSize := Some 100000000, parallelism := Some 2 \<rparr>) =
     Some \<lparr> result = Inl (RemoteError ''503''),
            options_after = \<lparr> blockSize = Some 100000000, parallelism = Some 2,
               progress = False, blobHTTPHeaders = Some [],
               blobAccessConditions = Some empty_conditions \<rparr>,
            final = \<lparr> blockList = [0, 1], blockNum = 0, transferProgress = 100000000,
               events = [],
               calls = [StageBlock 0 0 100000000, StageBlock 1 100000000 100000000],
               regions = [] \<rparr> \<rparr>
   \<and> (\<forall>ids. CommitBlockList ids \<notin>
         set [StageBlock 0 0 100000000, StageBlock 1 100000000 100000000 :: nat call])
   \<and> first_failure all_succeed False
       (contentLength 100000000 300000000 (numBlocks_of 300000000 100000000))
       (Some 300000000) [1, 0, 2] 0 [] = None
   \<and> UploadResetableStreamToBlockBlob service_constants (\<lambda>i. i) all_succeed [1, 0, 2] 300000000
       (no_upload_options\<lparr> blockSize := Some 100000000, parallelism := Some 2 \<rparr>) =
     Some \<lparr> result = Inr ''committed'',
            options_after = \<lparr> blockSize = Some 100000000, parallelism = Some 2,
               progress = False, blobHTTPHeaders = Some [],
               blobAccessConditions = Some empty_conditions \<rparr>,
            final = \<lparr> blockList = [0, 1, 2], blockNum = 0, transferProgress = 300000000,
               events = [],
               calls = [StageBlock 0 0 100000000, StageBlock 1 100000000 100000000,
                        StageBlock 2 200000000 100000000, CommitBlockList [0, 1, 2]],
               regions = [] \<rparr> \<rparr>
   \<and> [StageBlock 0 0 100000000, StageBlock 1 100000000 100000000,
       StageBlock 2 200000000 100000000, CommitBlockList [0, 1, 2]] =
       map (\<lambda>i. StageBlock i (100000000 * int i)
                   (contentLength 100000000 300000000 (numBlocks_of 300000000 100000000) i))
         [0..<nat (numBlocks_of 300000000 100000000)]
       @ [CommitBlockList (map (\<lambda>i. i) [0..<nat (numBlocks_of 300000000 100000000)])]
   \<and> Inr ''committed'' =
       rejected (commitBlockList_result all_succeed
         (map (\<lambda>i. i) [0..<nat (numBlocks_of 300000000 100000000)]))
   \<and> first_failure second_call_throws True
       (contentLength 100000000 300000000 (numBlocks_of 300000000 100000000))
       (Some 300000000) [1, 0, 2] 0 [] = Some (CallbackError ''thrown'')
   \<and> UploadResetableStreamToBlockBlob service_constants (\<lambda>i. i) second_call_throws [1, 0, 2]
       300000000
       (no_upload_options\<lparr> blockSize := Some 100000000, parallelism := Some 2,
          progress := True \<rparr>) =
     Some \<lparr> result = Inl (CallbackError ''thrown''),
            options_after = \<lparr> blockSize = Some 100000000, parallelism = Some 2,
               progress = True, blobHTTPHeaders = Some [],
               blobAccessConditions = Some empty_conditions \<rparr>,
            final = \<lparr> blockList = [0, 1, 2], blockNum = 0, transferProgress = 300000000,
               events = [\<lparr> loadedBytes = 100000000, totalBytes = Some 300000000 \<rparr>,
                         \<lparr> loadedBytes = 200000000, totalBytes = Some 300000000 \<rparr>,
                         \<lparr> loadedBytes = 300000000, totalBytes = Some 300000000 \<rparr>],
               calls = [StageBlock 0 0 100000000, StageBlock 1 100000000 100000000,
                        StageBlock 2 200000000 100000000],
               regions = [] \<rparr> \<rparr>
   \<and> (\<forall>ids. CommitBlockList ids \<notin>
         set [StageBlock 0 0 100000000, StageBlock 1 100000000 100000000,
              StageBlock 2 200000000 100000000 :: nat call])
   \<and> (\<exists>rest out.
         UploadResetableStreamToBlockBlob service_constants (\<lambda>i. i) all_succeed ([1] @ rest)
           300000000
           (no_upload_options\<lparr> blockSize := Some 100000000, parallelism := Some 2 \<rparr>) = Some out)
   \<and> first_failure block_1_fails False (\<lambda>k. int (buffer_lengths 10 4 ! k)) None [1, 0] 0 [] =
       Some (RemoteError ''503'')
   \<and> UploadStreamToBlockBlob (\<lambda>i. i) block_1_fails [1, 0] 10 4 2 no_stream_options =
     Some \<lparr> result = Inl (RemoteError ''503''),
            options_after = \<lparr> st_blobHTTPHeaders = Some [],
               st_accessConditions = Some empty_conditions, st_progress = False \<rparr>,
            final = \<lparr> blockList = [0, 1], blockNum = 2, transferProgress = 4, events = [],
               calls = [StageBlock 0 0 4, StageBlock 1 4 4], regions = [] \<rparr> \<rparr>
   \<and> (\<forall>ids. CommitBlockList ids \<notin> set [StageBlock 0 0 4, StageBlock 1 4 4 :: nat call])
   \<and> first_failure all_succeed False (\<lambda>k. int (buffer_lengths 10 4 ! k)) None [1, 0, 2] 0 [] =
       None
   \<and> UploadStreamToBlockBlob (\<lambda>i. i) all_succeed [1, 0, 2] 10 4 2 no_stream_options =
     Some \<lparr> result = Inr ''committed'',
            options_after = \<lparr> st_blobHTTPHeaders = Some [],
               st_accessConditions = Some empty_conditions, st_progress = False \<rparr>,
            final = \<lparr> blockList = [0, 1, 2], blockNum = 3, transferProgress = 10,
               events = [],
               calls = [StageBlock 0 0 4, StageBlock 1 4 4, StageBlock 2 8 2,
                        CommitBlockList [0, 1, 2]],
               regions = [] \<rparr> \<rparr>
   \<and> [StageBlock 0 0 4, StageBlock 1 4 4, StageBlock 2 8 2, CommitBlockList [0, 1, 2]] =
       map (\<lambda>k. StageBlock k (int (4 * k)) (int (buffer_lengths 10 4 ! k)))
         [0..<length (buffer_lengths 10 4)]
       @ [CommitBlockList (map (\<lambda>i. i) [0..<length (buffer_lengths 10 4)])]
   \<and> Inr ''committed'' =
       rejected (commitBlockList_result all_succeed
         (map (\<lambda>i. i) [0..<length (buffer_lengths 10 4)]))
   \<and> (\<exists>rest out.
         UploadStreamToBlockBlob (\<lambda>i. i) all_succeed ([1] @ rest) 10 4 2 no_stream_options =
           Some out)"
proof -
  let ?opts = "no_upload_options\<lparr> blockSize := Some 100000000, parallelism := Some 2 \<rparr>"
  let ?opts' = "\<lparr> blockSize = Some 100000000, parallelism = Some 2,
               progress = False, blobHTTPHeaders = Some [],
               blobAccessConditions = Some empty_conditions \<rparr>"
  let ?popts = "no_upload_options\<lparr> blockSize := Some 100000000, parallelism := Some 2,
          progress := True \<rparr>"
  let ?popts' = "\<lparr> blockSize = Some 100000000, parallelism = Some 2,
               progress = True, blobHTTPHeaders = Some [],
               blobAccessConditions = Some empty_conditions \<rparr>"
  let ?len = "contentLength 100000000 300000000 (numBlocks_of 300000000 100000000)"
  let ?slen = "\<lambda>k. int (buffer_lengths 10 4 ! k)"
  let ?out1 = "\<lparr> result = Inl (RemoteError ''503''), options_after = ?opts',
            final = \<lparr> blockList = [0, 1], blockNum = 0, transferProgress = 100000000,
               events = [],
               calls = [StageBlock 0 0 100000000, StageBlock 1 100000000 100000000],
               regions = [] \<rparr> \<rparr> :: (nat, string, IUploadToBlockBlobOptions) outcome"
  let ?out2 = "\<lparr> result = Inr ''committed'', options_after = ?opts',
            final = \<lparr> blockList = [0, 1, 2], blockNum = 0, transferProgress = 300000000,
               events = [],
               calls = [StageBlock 0 0 100000000, StageBlock 1 100000000 100000000,
                        StageBlock 2 200000000 100000000, CommitBlockList [0, 1, 2]],
               regions = [] \<rparr> \<rparr> :: (nat, string, IUploadToBlockBlobOptions) outcome"
  let ?out3 = "\<lparr> result = Inl (CallbackError ''thrown''), options_after = ?popts',
            final = \<lparr> blockList = [0, 1, 2], blockNum = 0, transferProgress = 300000000,
               events = [\<lparr> loadedBytes = 100000000, totalBytes = Some 300000000 \<rparr>,
                         \<lparr> loadedBytes = 200000000, totalBytes = Some 300000000 \<rparr>,
                         \<lparr> loadedBytes = 300000000, totalBytes = Some 300000000 \<rparr>],
               calls = [StageBlock 0 0 100000000, StageBlock 1 100000000 100000000,
                        StageBlock 2 200000000 100000000],
               regions = [] \<rparr> \<rparr> :: (nat, string, IUploadToBlockBlobOptions) outcome"
  let ?sopts' = "\<lparr> st_blobHTTPHeaders = Some [],
               st_accessConditions = Some empty_conditions, st_progress = False \<rparr>"
  let ?sout1 = "\<lparr> result = Inl (RemoteError ''503''), options_after = ?sopts',
            final = \<lparr> blockList = [0, 1], blockNum = 2, transferProgress = 4, events = [],
               calls = [StageBlock 0 0 4, StageBlock 1 4 4], regions = [] \<rparr> \<rparr>
            :: (nat, string, IUploadStreamToBlockBlobOptions) outcome"
  let ?sout2 = "\<lparr> result = Inr ''committed'', options_after = ?sopts',
            final = \<lparr> blockList = [0, 1, 2], blockNum = 3, transferProgress = 10,
               events = [],
               calls = [StageBlock 0 0 4, StageBlock 1 4 4, StageBlock 2 8 2,
                        CommitBlockList [0, 1, 2]],
               regions = [] \<rparr> \<rparr> :: (nat, string, IUploadStreamToBlockBlobOptions) outcome"
  let ?b0 = "\<lparr> concurrencyLimit = 2, cursor = 3, active = [0, 2], firstError = None,
            shared = \<lparr> blockList = [0, 1, 2], blockNum = 0, transferProgress = 100000000,
               events = [],
               calls = [StageBlock 0 0 100000000, StageBlock 1 100000000 100000000,
                        StageBlock 2 200000000 100000000],
               regions = [] \<rparr> \<rparr> :: nat transfer Batch"
  let ?sb0 = "\<lparr> concurrencyLimit = 2, cursor = 3, active = [0, 2], firstError = None,
            shared = \<lparr> blockList = [0, 1, 2], blockNum = 3, transferProgress = 4,
               events = [],
               calls = [StageBlock 0 0 4, StageBlock 1 4 4, StageBlock 2 8 2],
               regions = [] \<rparr> \<rparr> :: nat transfer Batch"
  have o: "upload_options service_constants 300000000 ?opts = (?opts', Inr 100000000)"
    by code_simp
  have po: "upload_options service_constants 300000000 ?popts = (?popts', Inr 100000000)"
    by code_simp
  have big: "BLOCK_BLOB_MAX_UPLOAD_BLOB_BYTES service_constants < 300000000"
    by (simp add: service_constants_def)
  have n: "numBlocks_of 300000000 100000000 \<le> BLOCK_BLOB_MAX_BLOCKS service_constants"
    by (simp add: service_constants_def numBlocks_of_def)
  have cap: "0 < Batch_new service_constants (parallelism ?opts')"
    by (simp add: Batch_new_def)
  have ff1: "first_failure block_1_fails False ?len (Some 300000000) [1, 0] 0 [] =
               Some (RemoteError ''503'')"
    by code_simp
  have ff2: "first_failure all_succeed False ?len (Some 300000000) [1, 0, 2] 0 [] = None"
    by code_simp
  have ff3: "first_failure second_call_throws True ?len (Some 300000000) [1, 0, 2] 0 [] =
               Some (CallbackError ''thrown'')"
    by code_simp
  have sf1: "first_failure block_1_fails False ?slen None [1, 0] 0 [] = Some (RemoteError ''503'')"
    by code_simp
  have sf2: "first_failure all_succeed False ?slen None [1, 0, 2] 0 [] = None"
    by code_simp
  have up1: "UploadResetableStreamToBlockBlob service_constants (\<lambda>i. i) block_1_fails [1, 0]
       300000000 ?opts = Some ?out1"
    by code_simp
  have up2: "UploadResetableStreamToBlockBlob service_constants (\<lambda>i. i) all_succeed [1, 0, 2]
       300000000 ?opts = Some ?out2"
    by code_simp
  have up3: "UploadResetableStreamToBlockBlob service_constants (\<lambda>i. i) second_call_throws
       [1, 0, 2] 300000000 ?popts = Some ?out3"
    by code_simp
  have r0: "run (upload_operations (\<lambda>i. i) all_succeed (progress ?opts') 100000000 300000000) [1]
       (Batch_start (Batch_new service_constants (parallelism ?opts'))
          (upload_operations (\<lambda>i. i) all_succeed (progress ?opts') 100000000 300000000) initial)
       = Some ?b0"
    by code_simp
  have sup1: "UploadStreamToBlockBlob (\<lambda>i. i) block_1_fails [1, 0] 10 4 2 no_stream_options =
       Some ?sout1"
    by code_simp
  have sup2: "UploadStreamToBlockBlob (\<lambda>i. i) all_succeed [1, 0, 2] 10 4 2 no_stream_options =
       Some ?sout2"
    by code_simp
  have sr0: "run (stream_handlers (\<lambda>i. i) all_succeed (st_progress (stream_options no_stream_options))
          10 4) [1]
       (Batch_start (nat \<lceil>real 2 / 4 * 3\<rceil>)
          (stream_handlers (\<lambda>i. i) all_succeed (st_progress (stream_options no_stream_options))
             10 4) initial)
       = Some ?sb0"
    by code_simp
  have sp: "st_progress (stream_options no_stream_options) = False"
    by (simp add: stream_options_def no_stream_options_def)
  have pr: "progress ?opts' = False" and ppr: "progress ?popts' = True"
    by simp_all
  note t1 = C1_commit_only_after_all_blocks[where C = service_constants and gen = "\<lambda>i. i"
      and env = block_1_fails and sz = 300000000 and opts = ?opts and opts' = ?opts'
      and bs = 100000000, THEN conjunct1, rule_format, OF o big n]
  note t2 = C1_commit_only_after_all_blocks[where C = service_constants and gen = "\<lambda>i. i"
      and env = all_succeed and sz = 300000000 and opts = ?opts and opts' = ?opts'
      and bs = 100000000, THEN conjunct1, rule_format, OF o big n]
  note t3 = C1_commit_only_after_all_blocks[where C = service_constants and gen = "\<lambda>i. i"
      and env = second_call_throws and sz = 300000000 and opts = ?popts and opts' = ?popts'
      and bs = 100000000, THEN conjunct1, rule_format, OF po big n]
  note s1 = C1_commit_only_after_all_blocks[where gen' = "\<lambda>i. i" and env' = block_1_fails
      and streamLength = 10 and bufferSize = 4 and maxBuffers = 2 and sopts = no_stream_options,
      THEN conjunct2]
  note s2 = C1_commit_only_after_all_blocks[where gen' = "\<lambda>i. i" and env' = all_succeed
      and streamLength = 10 and bufferSize = 4 and maxBuffers = 2 and sopts = no_stream_options,
      THEN conjunct2]
  have a1: "\<forall>ids. CommitBlockList ids \<notin>
         set [StageBlock 0 0 100000000, StageBlock 1 100000000 100000000 :: nat call]"
    using t1[THEN conjunct2, rule_format, OF up1] unfolding pr ff1 by simp
  have a2: "[StageBlock 0 0 100000000, StageBlock 1 100000000 100000000,
       StageBlock 2 200000000 100000000, CommitBlockList [0, 1, 2]] =
       map (\<lambda>i. StageBlock i (100000000 * int i) (?len i))
         [0..<nat (numBlocks_of 300000000 100000000)]
       @ [CommitBlockList (map (\<lambda>i. i) [0..<nat (numBlocks_of 300000000 100000000)])]
     \<and> Inr ''committed'' =
       rejected (commitBlockList_result all_succeed
         (map (\<lambda>i. i) [0..<nat (numBlocks_of 300000000 100000000)]))"
    using t2[THEN conjunct2, rule_format, OF up2, unfolded pr ff2 option.case outcome.simps
        transfer.simps]
    by blast
  have a3: "\<forall>ids. CommitBlockList ids \<notin>
         set [StageBlock 0 0 100000000, StageBlock 1 100000000 100000000,
              StageBlock 2 200000000 100000000 :: nat call]"
    using t3[THEN conjunct2, rule_format, OF up3] unfolding ppr ff3 by simp
  have a4: "\<exists>rest out.
         UploadResetableStreamToBlockBlob service_constants (\<lambda>i. i) all_succeed ([1] @ rest)
           300000000 ?opts = Some out"
    using t2[THEN conjunct1, rule_format, OF cap r0] .
  have b1: "\<forall>ids. CommitBlockList ids \<notin> set [StageBlock 0 0 4, StageBlock 1 4 4 :: nat call]"
    using s1[THEN conjunct2, rule_format, OF sup1] unfolding sp sf1 by simp
  have b2: "[StageBlock 0 0 4, StageBlock 1 4 4, StageBlock 2 8 2, CommitBlockList [0, 1, 2]] =
       map (\<lambda>k. StageBlock k (int (4 * k)) (int (buffer_lengths 10 4 ! k)))
         [0..<length (buffer_lengths 10 4)]
       @ [CommitBlockList (map (\<lambda>i. i) [0..<length (buffer_lengths 10 4)])]
     \<and> Inr ''committed'' =
       rejected (commitBlockList_result all_succeed
         (map (\<lambda>i. i) [0..<length (buffer_lengths 10 4)]))"
    using s2[THEN conjunct2, rule_format, OF sup2, unfolded sp sf2 option.case outcome.simps
        transfer.simps]
    by blast
  have b3: "\<exists>rest out.
         UploadStreamToBlockBlob (\<lambda>i. i) all_succeed ([1] @ rest) 10 4 2 no_stream_options =
           Some out"
    using s2[THEN conjunct1, rule_format, OF _ _ sr0] by simp
  from ff1 up1 a1 ff2 up2 a2[THEN conjunct1] a2[THEN conjunct2] ff3 up3 a3 a4
    sf1 sup1 b1 sf2 sup2 b2[THEN conjunct1] b2[THEN conjunct2] b3
  show ?thesis by (intro conjI)
qed

lemma upload_commits:
  assumes up: "UploadResetableStreamToBlockBlob C gen env order sz opts = Some out"
    and o: "upload_options C sz opts = (opts', Inr bs)"
    and big: "BLOCK_BLOB_MAX_UPLOAD_BLOB_BYTES C < sz"
    and n: "numBlocks_of sz bs \<le> BLOCK_BLOB_MAX_BLOCKS C"
    and ok: "\<forall>k < nat (numBlocks_of sz bs). stageBlock_result env k = None"
    and quiet: "\<not> progress opts' \<or> (\<forall>evs. progress_result env evs = None)"
  shows "calls (final out) =
           map (\<lambda>i. StageBlock (gen i) (bs * int i) (contentLength bs sz (numBlocks_of sz bs) i))
             [0..<nat (numBlocks_of sz bs)]
           @ [CommitBlockList (map gen [0..<nat (numBlocks_of sz bs)])]"
proof -
  let ?ops = "upload_operations gen env (progress opts') bs sz"
  from upload_chunked_end[OF up o big n] obtain b where
    r: "run ?ops order (Batch_start (Batch_new C (parallelism opts')) ?ops initial) = Some b"
    by blast
  have "tracked ?ops (Batch_start (Batch_new C (parallelism opts')) ?ops initial)"
    unfolding Batch_start_def by (rule fill_tracked) (rule tracked_initial)
  from run_indices[OF r this] have "\<forall>k \<in> set order. stageBlock_result env k = None"
    using ok by simp
  then have "first_failure env (progress opts') (contentLength bs sz (numBlocks_of sz bs))
               (Some sz) order 0 [] = None"
    using quiet by (rule first_failure_quiet)
  with upload_chunked_outcome[OF up o big n] show ?thesis by simp
qed

lemma stream_commits:
  assumes up: "UploadStreamToBlockBlob gen env order streamLength bufferSize maxBuffers opts = Some out"
    and ok: "\<forall>k < length (buffer_lengths streamLength bufferSize). stageBlock_result env k = None"
    and quiet: "\<not> st_progress (stream_options opts) \<or> (\<forall>evs. progress_result env evs = None)"
  shows "calls (final out) =
           map (\<lambda>k. StageBlock (gen k) (int (bufferSize * k))
                       (int (buffer_lengths streamLength bufferSize ! k)))
             [0..<length (buffer_lengths streamLength bufferSize)]
           @ [CommitBlockList (map gen [0..<length (buffer_lengths streamLength bufferSize)])]"
proof -
  let ?ops = "stream_handlers gen env (st_progress (stream_options opts)) streamLength bufferSize"
  from stream_end[OF up] obtain b where
    r: "run ?ops order (Batch_start (nat \<lceil>real maxBuffers / 4 * 3\<rceil>) ?ops initial) = Some b"
    by blast
  have "tracked ?ops (Batch_start (nat \<lceil>real maxBuffers / 4 * 3\<rceil>) ?ops initial)"
    unfolding Batch_start_def by (rule fill_tracked) (rule tracked_initial)
  from run_indices[OF r this] have "\<forall>k \<in> set order. stageBlock_result env k = None"
    using ok by simp
  then have "first_failure env (st_progress (stream_options opts))
               (\<lambda>k. int (buffer_lengths streamLength bufferSize ! k)) None order 0 [] = None"
    using quiet by (rule first_failure_quiet)
  with stream_outcome[OF up] show ?thesis by simp
qed

lemma upload_commit_ids:
  assumes up: "UploadResetableStreamToBlockBlob C gen env order sz opts = Some out"
    and o: "upload_options C sz opts = (opts', Inr bs)"
    and big: "BLOCK_BLOB_MAX_UPLOAD_BLOB_BYTES C < sz"
    and n: "numBlocks_of sz bs \<le> BLOCK_BLOB_MAX_BLOCKS C"
    and c: "CommitBlockList ids \<in> set (calls (final out))"
  shows "ids = map gen [0..<nat (numBlocks_of sz bs)]"
  using upload_chunked_outcome[OF up o big n] c
  by (cases "first_failure env (progress opts') (contentLength bs sz (numBlocks_of sz bs))
               (Some sz) order 0 []") auto

lemma stream_commit_ids:
  assumes up: "UploadStreamToBlockBlob gen env order streamLength bufferSize maxBuffers opts = Some out"
    and c: "CommitBlockList ids \<in> set (calls (final out))"
  shows "ids = map gen [0..<length (buffer_lengths streamLength bufferSize)]"
  using stream_outcome[OF up] c
  by (cases "first_failure env (st_progress (stream_options opts))
               (\<lambda>k. int (buffer_lengths streamLength bufferSize ! k)) None order 0 []") auto

text \<open>
  Claim C2. In both uploads, under every schedule under which the function returns: a
  list of IDs passed to \<^verbatim>\<open>commitBlockList\<close> is \<open>generateBlockID 0, ...,
  generateBlockID (n - 1)\<close> in this order, \<open>n\<close> being the number of blocks; and when the
  staging of every block succeeds and the progress callback does not throw, the function
  does call \<^verbatim>\<open>commitBlockList\<close> with that list, after the \<^verbatim>\<open>stageBlock\<close> calls of all
  blocks. Such returns exist: with a positive cap, every state that a schedule leads the
  batch to has a continuation under which the function returns with that call made.
\<close>

theorem C2_commit_ids_in_index_order:
  "(upload_options C sz opts = (opts', Inr bs) \<longrightarrow>
    BLOCK_BLOB_MAX_UPLOAD_BLOB_BYTES C < sz \<longrightarrow>
    numBlocks_of sz bs \<le> BLOCK_BLOB_MAX_BLOCKS C \<longrightarrow>
      (\<forall>order out.
         UploadResetableStreamToBlockBlob C gen env order sz opts = Some out \<longrightarrow>
           (\<forall>ids. CommitBlockList ids \<in> set (calls (final out)) \<longrightarrow>
              ids = map gen [0..<nat (numBlocks_of sz bs)])
           \<and> ((\<forall>k < nat (numBlocks_of sz bs). stageBlock_result env k = None) \<longrightarrow>
              (\<not> progress opts' \<or> (\<forall>evs. progress_result env evs = None)) \<longrightarrow>
                calls (final out) =
                  map (\<lambda>i. StageBlock (gen i) (bs * int i)
                              (contentLength bs sz (numBlocks_of sz bs) i))
                    [0..<nat (numBlocks_of sz bs)]
                  @ [CommitBlockList (map gen [0..<nat (numBlocks_of sz bs)])]))
      \<and> (0 < Batch_new C (parallelism opts') \<longrightarrow>
         (\<forall>k < nat (numBlocks_of sz bs). stageBlock_result env k = None) \<longrightarrow>
         (\<not> progress opts' \<or> (\<forall>evs. progress_result env evs = None)) \<longrightarrow>
           (\<forall>order0 b0.
              run (upload_operations gen env (progress opts') bs sz) order0
                (Batch_start (Batch_new C (parallelism opts'))
                   (upload_operations gen env (progress opts') bs sz) initial) = Some b0 \<longrightarrow>
              (\<exists>rest out.
                 UploadResetableStreamToBlockBlob C gen env (order0 @ rest) sz opts = Some out
                 \<and> CommitBlockList (map gen [0..<nat (numBlocks_of sz bs)])
                      \<in> set (calls (final out))))))
   \<and> (\<forall>order out.
         UploadStreamToBlockBlob gen' env' order streamLength bufferSize maxBuffers sopts = Some out \<longrightarrow>
           (\<forall>ids. CommitBlockList ids \<in> set (calls (final out)) \<longrightarrow>
              ids = map gen' [0..<length (buffer_lengths streamLength bufferSize)])
           \<and> ((\<forall>k < length (buffer_lengths streamLength bufferSize).
                  stageBlock_result env' k = None) \<longrightarrow>
              (\<not> st_progress (stream_options sopts) \<or> (\<forall>evs. progress_result env' evs = None)) \<longrightarrow>
                calls (final out) =
                  map (\<lambda>k. StageBlock (gen' k) (int (bufferSize * k))
                              (int (buffer_lengths streamLength bufferSize ! k)))
                    [0..<length (buffer_lengths streamLength bufferSize)]
                  @ [CommitBlockList
                       (map gen' [0..<length (buffer_lengths streamLength bufferSize)])]))
   \<and> (0 < bufferSize \<longrightarrow> 0 < maxBuffers \<longrightarrow>
       (\<forall>k < length (buffer_lengths streamLength bufferSize). stageBlock_result env' k = None) \<longrightarrow>
       (\<not> st_progress (stream_options sopts) \<or> (\<forall>evs. progress_result env' evs = None)) \<longrightarrow>
         (\<forall>order0 b0.
            run (stream_handlers gen' env' (st_progress (stream_options sopts)) streamLength
                   bufferSize) order0
              (Batch_start (nat \<lceil>real maxBuffers / 4 * 3\<rceil>)
                 (stream_handlers gen' env' (st_progress (stream_options sopts)) streamLength
                    bufferSize)
                 initial) = Some b0 \<longrightarrow>
            (\<exists>rest out.
               UploadStreamToBlockBlob gen' env' (order0 @ rest) streamLength bufferSize
                 maxBuffers sopts = Some out
               \<and> CommitBlockList (map gen' [0..<length (buffer_lengths streamLength bufferSize)])
                    \<in> set (calls (final out)))))"
proof (intro conjI impI allI)
  fix order out ids
  assume "upload_options C sz opts = (opts', Inr bs)"
    "BLOCK_BLOB_MAX_UPLOAD_BLOB_BYTES C < sz"
    "numBlocks_of sz bs \<le> BLOCK_BLOB_MAX_BLOCKS C"
    "UploadResetableStreamToBlockBlob C gen env order sz opts = Some out"
    "CommitBlockList ids \<in> set (calls (final out))"
  from upload_commit_ids[OF this(4,1,2,3,5)]
  show "ids = map gen [0..<nat (numBlocks_of sz bs)]" .
next
  fix order out
  assume "upload_options C sz opts = (opts', Inr bs)"
    "BLOCK_BLOB_MAX_UPLOAD_BLOB_BYTES C < sz"
    "numBlocks_of sz bs \<le> BLOCK_BLOB_MAX_BLOCKS C"
    "UploadResetableStreamToBlockBlob C gen env order sz opts = Some out"
    "\<forall>k < nat (numBlocks_of sz bs). stageBlock_result env k = None"
    "\<not> progress opts' \<or> (\<forall>evs. progress_result env evs = None)"
  from upload_commits[OF this(4,1,2,3,5,6)]
  show "calls (final out) =
                  map (\<lambda>i. StageBlock (gen i) (bs * int i)
                              (contentLength bs sz (numBlocks_of sz bs) i))
                    [0..<nat (numBlocks_of sz bs)]
                  @ [CommitBlockList (map gen [0..<nat (numBlocks_of sz bs)])]" .
next
  fix order0 b0
  assume o: "upload_options C sz opts = (opts', Inr bs)"
    and big: "BLOCK_BLOB_MAX_UPLOAD_BLOB_BYTES C < sz"
    and n: "numBlocks_of sz bs \<le> BLOCK_BLOB_MAX_BLOCKS C"
    and cap: "0 < Batch_new C (parallelism opts')"
    and ok: "\<forall>k < nat (numBlocks_of sz bs). stageBlock_result env k = None"
    and quiet: "\<not> progress opts' \<or> (\<forall>evs. progress_result env evs = None)"
    and r0: "run (upload_operations gen env (progress opts') bs sz) order0
                (Batch_start (Batch_new C (parallelism opts'))
                   (upload_operations gen env (progress opts') bs sz) initial) = Some b0"
  from upload_extends[OF o big n cap r0] obtain rest out where
    up: "UploadResetableStreamToBlockBlob C gen env (order0 @ rest) sz opts = Some out"
    by blast
  have "CommitBlockList (map gen [0..<nat (numBlocks_of sz bs)]) \<in> set (calls (final out))"
    unfolding upload_commits[OF up o big n ok quiet] by simp
  with up show "\<exists>rest out.
                 UploadResetableStreamToBlockBlob C gen env (order0 @ rest) sz opts = Some out
                 \<and> CommitBlockList (map gen [0..<nat (numBlocks_of sz bs)])
                      \<in> set (calls (final out))"
    by blast
next
  fix order out ids
  assume "UploadStreamToBlockBlob gen' env' order streamLength bufferSize maxBuffers sopts = Some out"
    "CommitBlockList ids \<in> set (calls (final out))"
  then show "ids = map gen' [0..<length (buffer_lengths streamLength bufferSize)]"
    by (rule stream_commit_ids)
next
  fix order out
  assume "UploadStreamToBlockBlob gen' env' order streamLength bufferSize maxBuffers sopts = Some out"
    "\<forall>k < length (buffer_lengths streamLength bufferSize). stageBlock_result env' k = None"
    "\<not> st_progress (stream_options sopts) \<or> (\<forall>evs. progress_result env' evs = None)"
  then show "calls (final out) =
                  map (\<lambda>k. StageBlock (gen' k) (int (bufferSize * k))
                              (int (buffer_lengths streamLength bufferSize ! k)))
                    [0..<length (buffer_lengths streamLength bufferSize)]
                  @ [CommitBlockList
                       (map gen' [0..<length (buffer_lengths streamLength bufferSize)])]"
    by (rule stream_commits)
next
  fix order0 b0
  assume bsz: "0 < bufferSize" and mb: "0 < maxBuffers"
    and ok: "\<forall>k < length (buffer_lengths streamLength bufferSize). stageBlock_result env' k = None"
    and quiet: "\<not> st_progress (stream_options sopts) \<or> (\<forall>evs. progress_result env' evs = None)"
    and r0: "run (stream_handlers gen' env' (st_progress (stream_options sopts)) streamLength
                   bufferSize) order0
              (Batch_start (nat \<lceil>real maxBuffers / 4 * 3\<rceil>)
                 (stream_handlers gen' env' (st_progress (stream_options sopts)) streamLength
                    bufferSize)
                 initial) = Some b0"
  from stream_extends[OF bsz mb r0] obtain rest out where
    up: "UploadStreamToBlockBlob gen' env' (order0 @ rest) streamLength bufferSize maxBuffers sopts
           = Some out"
    by blast
  have "CommitBlockList (map gen' [0..<length (buffer_lengths streamLength bufferSize)])
          \<in> set (calls (final out))"
    unfolding stream_commits[OF up ok quiet] by simp
  with up show "\<exists>rest out.
               UploadStreamToBlockBlob gen' env' (order0 @ rest) streamLength bufferSize
                 maxBuffers sopts = Some out
               \<and> CommitBlockList (map gen' [0..<length (buffer_lengths streamLength bufferSize)])
                    \<in> set (calls (final out))"
    by blast
qed

text \<open>
  The theorem at the upload of three blocks and at the stream of three buffers above,
  both under the cap 2 with block 1 staged first, the stream with a progress callback
  that returns.
\<close>

theorem C2_commit_ids_in_index_order_witness:
  "UploadResetableStreamToBlockBlob service_constants (\<lambda>i. i) all_succeed [1, 0, 2] 300000000
       (no_upload_options\<lparr> blockSize := Some 100000000, parallelism := Some 2 \<rparr>) =
     Some \<lparr> result = Inr ''committed'',
            options_after = \<lparr> blockSize = Some 100000000, parallelism = Some 2,
               progress = False, blobHTTPHeaders = Some [],
               blobAccessConditions = Some empty_conditions \<rparr>,
            final = \<lparr> blockList = [0, 1, 2], blockNum = 0, transferProgress = 300000000,
               events = [],
               calls = [StageBlock 0 0 100000000, StageBlock 1 100000000 100000000,
                        StageBlock 2 200000000 100000000, CommitBlockList [0, 1, 2]],
               regions = [] \<rparr> \<rparr>
   \<and> [0, 1, 2] = map (\<lambda>i. i) [0..<nat (numBlocks_of 300000000 100000000)]
   \<and> [StageBlock 0 0 100000000, StageBlock 1 100000000 100000000,
       StageBlock 2 200000000 100000000, CommitBlockList [0, 1, 2]] =
       map (\<lambda>i. StageBlock i (100000000 * int i)
                   (contentLength 100000000 300000000 (numBlocks_of 300000000 100000000) i))
         [0..<nat (numBlocks_of 300000000 100000000)]
       @ [CommitBlockList (map (\<lambda>i. i) [0..<nat (numBlocks_of 300000000 100000000)])]
   \<and> (\<exists>rest out.
         UploadResetableStreamToBlockBlob service_constants (\<lambda>i. i) all_succeed ([1] @ rest)
           300000000
           (no_upload_options\<lparr> blockSize := Some 100000000, parallelism := Some 2 \<rparr>) = Some out
         \<and> CommitBlockList (map (\<lambda>i. i) [0..<nat (numBlocks_of 300000000 100000000)])
              \<in> set (calls (final out)))
   \<and> UploadStreamToBlockBlob (\<lambda>i. i) all_succeed [1, 0, 2] 10 4 2
       (no_stream_options\<lparr> st_progress := True \<rparr>) =
     Some \<lparr> result = Inr ''committed'',
            options_after = \<lparr> st_blobHTTPHeaders = Some [],
               st_accessConditions = Some empty_conditions, st_progress = True \<rparr>,
            final = \<lparr> blockList = [0, 1, 2], blockNum = 3, transferProgress = 10,
               events = [\<lparr> loadedBytes = 4, totalBytes = None \<rparr>,
                         \<lparr> loadedBytes = 8, totalBytes = None \<rparr>,
                         \<lparr> loadedBytes = 10, totalBytes = None \<rparr>],
               calls = [StageBlock 0 0 4, StageBlock 1 4 4, StageBlock 2 8 2,
                        CommitBlockList [0, 1, 2]],
               regions = [] \<rparr> \<rparr>
   \<and> [0, 1, 2] = map (\<lambda>i. i) [0..<length (buffer_lengths 10 4)]
   \<and> [StageBlock 0 0 4, StageBlock 1 4 4, StageBlock 2 8 2, CommitBlockList [0, 1, 2]] =
       map (\<lambda>k. StageBlock k (int (4 * k)) (int (buffer_lengths 10 4 ! k)))
         [0..<length (buffer_lengths 10 4)]
       @ [CommitBlockList (map (\<lambda>i. i) [0..<length (buffer_lengths 10 4)])]
   \<and> (\<exists>rest out.
         UploadStreamToBlockBlob (\<lambda>i. i) all_succeed ([1] @ rest) 10 4 2
           (no_stream_options\<lparr> st_progress := True \<rparr>) = Some out
         \<and> CommitBlockList (map (\<lambda>i. i) [0..<length (buffer_lengths 10 4)])
              \<in> set (calls (final out)))"
proof -
  let ?opts = "no_upload_options\<lparr> blockSize := Some 100000000, parallelism := Some 2 \<rparr>"
  let ?opts' = "\<lparr> blockSize = Some 100000000, parallelism = Some 2,
               progress = False, blobHTTPHeaders = Some [],
               blobAccessConditions = Some empty_conditions \<rparr>"
  let ?sopts = "no_stream_options\<lparr> st_progress := True \<rparr>"
  let ?out = "\<lparr> result = Inr ''committed'', options_after = ?opts',
            final = \<lparr> blockList = [0, 1, 2], blockNum = 0, transferProgress = 300000000,
               events = [],
               calls = [StageBlock 0 0 100000000, StageBlock 1 100000000 100000000,
                        StageBlock 2 200000000 100000000, CommitBlockList [0, 1, 2]],
               regions = [] \<rparr> \<rparr> :: (nat, string, IUploadToBlockBlobOptions) outcome"
  let ?sout = "\<lparr> result = Inr ''committed'',
            options_after = \<lparr> st_blobHTTPHeaders = Some [],
               st_accessConditions = Some empty_conditions, st_progress = True \<rparr>,
            final = \<lparr> blockList = [0, 1, 2], blockNum = 3, transferProgress = 10,
               events = [\<lparr> loadedBytes = 4, totalBytes = None \<rparr>,
                         \<lparr> loadedBytes = 8, totalBytes = None \<rparr>,
                         \<lparr> loadedBytes = 10, totalBytes = None \<rparr>],
               calls = [StageBlock 0 0 4, StageBlock 1 4 4, StageBlock 2 8 2,
                        CommitBlockList [0, 1, 2]],
               regions = [] \<rparr> \<rparr> :: (nat, string, IUploadStreamToBlockBlobOptions) outcome"
  let ?b0 = "\<lparr> concurrencyLimit = 2, cursor = 3, active = [0, 2], firstError = None,
            shared = \<lparr> blockList = [0, 1, 2], blockNum = 0, transferProgress = 100000000,
               events = [],
               calls = [StageBlock 0 0 100000000, StageBlock 1 100000000 100000000,
                        StageBlock 2 200000000 100000000],
               regions = [] \<rparr> \<rparr> :: nat transfer Batch"
  let ?sb0 = "\<lparr> concurrencyLimit = 2, cursor = 3, active = [0, 2], firstError = None,
            shared = \<lparr> blockList = [0, 1, 2], blockNum = 3, transferProgress = 4,
               events = [\<lparr> loadedBytes = 4, totalBytes = None \<rparr>],
               calls = [StageBlock 0 0 4, StageBlock 1 4 4, StageBlock 2 8 2],
               regions = [] \<rparr> \<rparr> :: nat transfer Batch"
  have o: "upload_options service_constants 300000000 ?opts = (?opts', Inr 100000000)"
    by code_simp
  have big: "BLOCK_BLOB_MAX_UPLOAD_BLOB_BYTES service_constants < 300000000"
    by (simp add: service_constants_def)
  have n: "numBlocks_of 300000000 100000000 \<le> BLOCK_BLOB_MAX_BLOCKS service_constants"
    by (simp add: service_constants_def numBlocks_of_def)
  have cap: "0 < Batch_new service_constants (parallelism ?opts')"
    by (simp add: Batch_new_def)
  have ok: "\<forall>k < nat (numBlocks_of 300000000 100000000). stageBlock_result all_succeed k = None"
    by (simp add: all_succeed_def)
  have quiet: "\<not> progress ?opts' \<or> (\<forall>evs. progress_result all_succeed evs = None)"
    by simp
  have up: "UploadResetableStreamToBlockBlob service_constants (\<lambda>i. i) all_succeed [1, 0, 2]
       300000000 ?opts = Some ?out"
    by code_simp
  have c: "CommitBlockList [0, 1, 2] \<in> set (calls (final ?out))" by simp
  have r0: "run (upload_operations (\<lambda>i. i) all_succeed (progress ?opts') 100000000 300000000) [1]
       (Batch_start (Batch_new service_constants (parallelism ?opts'))
          (upload_operations (\<lambda>i. i) all_succeed (progress ?opts') 100000000 300000000) initial)
       = Some ?b0"
    by code_simp
  have sok: "\<forall>k < length (buffer_lengths 10 4). stageBlock_result all_succeed k = None"
    by (simp add: all_succeed_def)
  have squiet: "\<not> st_progress (stream_options ?sopts)
                 \<or> (\<forall>evs. progress_result all_succeed evs = None)"
    by (simp add: all_succeed_def)
  have sup: "UploadStreamToBlockBlob (\<lambda>i. i) all_succeed [1, 0, 2] 10 4 2 ?sopts = Some ?sout"
    by code_simp
  have sc: "CommitBlockList [0, 1, 2] \<in> set (calls (final ?sout))" by simp
  have bsz: "0 < (4::nat)" and mb: "0 < (2::nat)" by simp_all
  have sr0: "run (stream_handlers (\<lambda>i. i) all_succeed (st_progress (stream_options ?sopts)) 10 4)
       [1]
       (Batch_start (nat \<lceil>real 2 / 4 * 3\<rceil>)
          (stream_handlers (\<lambda>i. i) all_succeed (st_progress (stream_options ?sopts)) 10 4)
          initial)
       = Some ?sb0"
    by code_simp
  note t = C2_commit_ids_in_index_order[where C = service_constants and gen = "\<lambda>i. i"
      and env = all_succeed and sz = 300000000 and opts = ?opts and opts' = ?opts'
      and bs = 100000000, THEN conjunct1, rule_format, OF o big n]
  note s = C2_commit_ids_in_index_order[where gen' = "\<lambda>i. i" and env' = all_succeed
      and streamLength = 10 and bufferSize = 4 and maxBuffers = 2 and sopts = ?sopts,
      THEN conjunct2]
  note tu = t[THEN conjunct1, rule_format, OF up]
  note su = s[THEN conjunct1, rule_format, OF sup]
  have a1: "[0, 1, 2] = map (\<lambda>i. i) [0..<nat (numBlocks_of 300000000 100000000)]"
    using tu[THEN conjunct1, rule_format, OF c] .
  have a2: "[StageBlock 0 0 100000000, StageBlock 1 100000000 100000000,
       StageBlock 2 200000000 100000000, CommitBlockList [0, 1, 2]] =
       map (\<lambda>i. StageBlock i (100000000 * int i)
                   (contentLength 100000000 300000000 (numBlocks_of 300000000 100000000) i))
         [0..<nat (numBlocks_of 300000000 100000000)]
       @ [CommitBlockList (map (\<lambda>i. i) [0..<nat (numBlocks_of 300000000 100000000)])]"
    using tu[THEN conjunct2, THEN mp, OF ok, THEN mp, OF quiet, unfolded outcome.simps
        transfer.simps] .
  have a3: "\<exists>rest out.
         UploadResetableStreamToBlockBlob service_constants (\<lambda>i. i) all_succeed ([1] @ rest)
           300000000 ?opts = Some out
         \<and> CommitBlockList (map (\<lambda>i. i) [0..<nat (numBlocks_of 300000000 100000000)])
              \<in> set (calls (final out))"
    using t[THEN conjunct2, THEN mp, OF cap, THEN mp, OF ok, THEN mp, OF quiet, rule_format,
        OF r0] .
  have b1: "[0, 1, 2] = map (\<lambda>i. i) [0..<length (buffer_lengths 10 4)]"
    using su[THEN conjunct1, rule_format, OF sc] .
  have b2: "[StageBlock 0 0 4, StageBlock 1 4 4, StageBlock 2 8 2, CommitBlockList [0, 1, 2]] =
       map (\<lambda>k. StageBlock k (int (4 * k)) (int (buffer_lengths 10 4 ! k)))
         [0..<length (buffer_lengths 10 4)]
       @ [CommitBlockList (map (\<lambda>i. i) [0..<length (buffer_lengths 10 4)])]"
    using su[THEN conjunct2, THEN mp, OF sok, THEN mp, OF squiet, unfolded outcome.simps
        transfer.simps] .
  have b3: "\<exists>rest out.
         UploadStreamToBlockBlob (\<lambda>i. i) all_succeed ([1] @ rest) 10 4 2 ?sopts = Some out
         \<and> CommitBlockList (map (\<lambda>i. i) [0..<length (buffer_lengths 10 4)])
              \<in> set (calls (final out))"
    using s[THEN conjunct2, THEN mp, OF bsz, THEN mp, OF mb, THEN mp, OF sok, THEN mp, OF squiet,
        rule_format, OF sr0] .
  from up a1 a2 a3 sup b1 b2 b3 show ?thesis by (intro conjI)
qed

section \<open>When the block list and the progress change\<close>

lemma completed_upload:
  assumes "tracked (upload_operations gen env prog bs sz) b"
  shows "completed (upload_operations gen env prog bs sz) b =
           {i. i < cursor b \<and> i \<notin> set (active b) \<and> stageBlock_result env i = None}"
proof -
  have "settles (upload_operations gen env prog bs sz ! i) = None \<longleftrightarrow>
          stageBlock_result env i = None" if "i < cursor b" for i
  proof -
    have "i < nat (numBlocks_of sz bs)" using that assms by (simp add: tracked_def)
    then show ?thesis by (simp add: upload_settles)
  qed
  then show ?thesis by (auto simp: completed_def)
qed

lemma completed_stream:
  assumes "tracked (stream_handlers gen env prog streamLength bufferSize) b"
  shows "completed (stream_handlers gen env prog streamLength bufferSize) b =
           {i. i < cursor b \<and> i \<notin> set (active b) \<and> stageBlock_result env i = None}"
proof -
  have "settles (stream_handlers gen env prog streamLength bufferSize ! i) = None \<longleftrightarrow>
          stageBlock_result env i = None" if "i < cursor b" for i
  proof -
    have "i < length (buffer_lengths streamLength bufferSize)"
      using that assms by (simp add: tracked_def)
    then show ?thesis by (simp add: stream_settles)
  qed
  then show ?thesis by (auto simp: completed_def)
qed

text \<open>
  Claim C7, as the code has it. In every state a schedule leads to, in the batch of
  either upload: \<^verbatim>\<open>blockList\<close> holds the IDs of all blocks started, in index order,
  whether their staging is still in flight, has failed or has succeeded (the ID is
  pushed before \<^verbatim>\<open>stageBlock\<close> is awaited); \<^verbatim>\<open>transferProgress\<close> is the sum of the
  content lengths of exactly the blocks whose staging has succeeded.
\<close>

theorem C7_id_at_start_progress_after_staging:
  "(run (upload_operations gen env prog bs sz) order
       (Batch_start limit (upload_operations gen env prog bs sz) initial) = Some b \<longrightarrow>
      blockList (shared b) = map gen [0..<cursor b]
      \<and> transferProgress (shared b) =
          (\<Sum>i \<in> {i. i < cursor b \<and> i \<notin> set (active b) \<and> stageBlock_result env i = None}.
             contentLength bs sz (numBlocks_of sz bs) i))
   \<and> (run (stream_handlers gen' env' prog' streamLength bufferSize) order'
         (Batch_start limit' (stream_handlers gen' env' prog' streamLength bufferSize) initial)
         = Some b' \<longrightarrow>
      blockList (shared b') = map gen' [0..<cursor b']
      \<and> transferProgress (shared b') =
          (\<Sum>i \<in> {i. i < cursor b' \<and> i \<notin> set (active b') \<and> stageBlock_result env' i = None}.
             int (buffer_lengths streamLength bufferSize ! i)))"
proof (intro conjI impI)
  assume r: "run (upload_operations gen env prog bs sz) order
       (Batch_start limit (upload_operations gen env prog bs sz) initial) = Some b"
  show "blockList (shared b) = map gen [0..<cursor b]"
    using r by (rule upload_batch_state(1))
  show "transferProgress (shared b) =
          (\<Sum>i \<in> {i. i < cursor b \<and> i \<notin> set (active b) \<and> stageBlock_result env i = None}.
             contentLength bs sz (numBlocks_of sz bs) i)"
    using upload_batch_state(3)[OF r] completed_upload[OF tracked_run[OF r]] by simp
next
  assume r: "run (stream_handlers gen' env' prog' streamLength bufferSize) order'
         (Batch_start limit' (stream_handlers gen' env' prog' streamLength bufferSize) initial)
         = Some b'"
  show "blockList (shared b') = map gen' [0..<cursor b']"
    using r by (rule stream_batch_state(1))
  show "transferProgress (shared b') =
          (\<Sum>i \<in> {i. i < cursor b' \<and> i \<notin> set (active b') \<and> stageBlock_result env' i = None}.
             int (buffer_lengths streamLength bufferSize ! i))"
    using stream_batch_state(4)[OF r] completed_stream[OF tracked_run[OF r]] by simp
qed

text \<open>
  The theorem after block 1 has failed and block 0 is still in flight (upload), and
  after block 1 has been staged while blocks 0 and 2 are in flight (stream).
\<close>

theorem C7_id_at_start_progress_after_staging_witness:
  "run (upload_operations (\<lambda>i. i) block_1_fails False 200000000 300000000) [1]
       (Batch_start 5 (upload_operations (\<lambda>i. i) block_1_fails False 200000000 300000000)
          initial) =
     Some \<lparr> concurrencyLimit = 5, cursor = 2, active = [0],
            firstError = Some (RemoteError ''503''),
            shared = \<lparr> blockList = [0, 1], blockNum = 0, transferProgress = 0, events = [],
               calls = [StageBlock 0 0 200000000, StageBlock 1 200000000 100000000],
               regions = [] \<rparr> \<rparr>
   \<and> [0, 1] = map (\<lambda>i. i) [0..<2]
   \<and> 0 = (\<Sum>i \<in> {i. i < 2 \<and> i \<notin> set [0] \<and> stageBlock_result block_1_fails i = None}.
             contentLength 200000000 300000000 (numBlocks_of 300000000 200000000) i)
   \<and> run (stream_handlers (\<lambda>i. i) all_succeed False 10 4) [1]
       (Batch_start 3 (stream_handlers (\<lambda>i. i) all_succeed False 10 4) initial) =
     Some \<lparr> concurrencyLimit = 3, cursor = 3, active = [0, 2], firstError = None,
            shared = \<lparr> blockList = [0, 1, 2], blockNum = 3, transferProgress = 4, events = [],
               calls = [StageBlock 0 0 4, StageBlock 1 4 4, StageBlock 2 8 2],
               regions = [] \<rparr> \<rparr>
   \<and> [0, 1, 2] = map (\<lambda>i. i) [0..<3]
   \<and> 4 = (\<Sum>i \<in> {i. i < 3 \<and> i \<notin> set [0, 2] \<and> stageBlock_result all_succeed i = None}.
             int (buffer_lengths 10 4 ! i))"
proof -
  let ?b = "\<lparr> concurrencyLimit = 5, cursor = 2, active = [0],
            firstError = Some (RemoteError ''503''),
            shared = \<lparr> blockList = [0, 1], blockNum = 0, transferProgress = 0, events = [],
               calls = [StageBlock 0 0 200000000, StageBlock 1 200000000 100000000],
               regions = [] \<rparr> \<rparr> :: nat transfer Batch"
  let ?b' = "\<lparr> concurrencyLimit = 3, cursor = 3, active = [0, 2], firstError = None,
            shared = \<lparr> blockList = [0, 1, 2], blockNum = 3, transferProgress = 4, events = [],
               calls = [StageBlock 0 0 4, StageBlock 1 4 4, StageBlock 2 8 2],
               regions = [] \<rparr> \<rparr> :: nat transfer Batch"
  have r: "run (upload_operations (\<lambda>i. i) block_1_fails False 200000000 300000000) [1]
       (Batch_start 5 (upload_operations (\<lambda>i. i) block_1_fails False 200000000 300000000)
          initial) = Some ?b"
    by code_simp
  have r': "run (stream_handlers (\<lambda>i. i) all_succeed False 10 4) [1]
       (Batch_start 3 (stream_handlers (\<lambda>i. i) all_succeed False 10 4) initial) = Some ?b'"
    by code_simp
  note th = C7_id_at_start_progress_after_staging[where gen = "\<lambda>i. i" and env = block_1_fails
      and prog = False and bs = 200000000 and sz = 300000000 and order = "[1]" and limit = 5
      and b = ?b and gen' = "\<lambda>i. i" and env' = all_succeed and prog' = False
      and streamLength = 10 and bufferSize = 4 and order' = "[1]" and limit' = 3 and b' = ?b']
  have a: "[0, 1] = map (\<lambda>i. i) [0..<2]
      \<and> 0 = (\<Sum>i \<in> {i. i < 2 \<and> i \<notin> set [0] \<and> stageBlock_result block_1_fails i = None}.
             contentLength 200000000 300000000 (numBlocks_of 300000000 200000000) i)"
    using th[THEN conjunct1, rule_format, OF r] by (simp only: Batch.simps transfer.simps)
  have a': "[0, 1, 2] = map (\<lambda>i. i) [0..<3]
      \<and> 4 = (\<Sum>i \<in> {i. i < 3 \<and> i \<notin> set [0, 2] \<and> stageBlock_result all_succeed i = None}.
             int (buffer_lengths 10 4 ! i))"
    using th[THEN conjunct2, rule_format, OF r'] by (simp only: Batch.simps transfer.simps)
  from r a r' a' show ?thesis by (simp only: simp_thms)
qed

text \<open>
  Claim C7 as stated fails: the staging of block 1 fails, and its ID is in the block
  list when the upload returns the error.
\<close>

theorem C7_failed_block_id_stays:
  "stageBlock_result block_1_fails 1 = Some ''503''
   \<and> UploadResetableStreamToBlockBlob service_constants (\<lambda>i. i) block_1_fails [0, 1] 300000000
       (no_upload_options\<lparr> blockSize := Some 200000000 \<rparr>) =
     Some \<lparr> result = Inl (RemoteError ''503''),
            options_after = \<lparr> blockSize = Some 200000000, parallelism = None, progress = False,
               blobHTTPHeaders = Some [], blobAccessConditions = Some empty_conditions \<rparr>,
            final = \<lparr> blockList = [0, 1], blockNum = 0, transferProgress = 200000000,
               events = [],
               calls = [StageBlock 0 0 200000000, StageBlock 1 200000000 100000000],
               regions = [] \<rparr> \<rparr>"
  by code_simp

section \<open>The checks of DownloadBlobToBuffer and the remote calls\<close>

lemma download_operations_length [simp]:
  "length (download_operations env prog bs offset count) =
     length (offsets offset (offset + count) bs)"
  by (simp add: download_operations_def)

lemma download_settles:
  "k < length (offsets offset (offset + count) bs) \<Longrightarrow>
   settles (download_operations env prog bs offset count ! k) =
     map_option RemoteError (download_result env k)"
  by (simp add: download_operations_def download_operation_def nth_enumerate_eq)

lemma batch_error_settles:
  assumes "Batch_do limit ops order st = Some (Some e, st')"
  shows "\<exists>k < length ops. settles (ops ! k) = Some e \<or>
           settles (ops ! k) = None \<and> (\<exists>st. snd (resume_op (ops ! k) st) = Some e)"
proof -
  from assms obtain b where r: "run ops order (Batch_start limit ops st) = Some b"
    and e: "firstError b = Some e"
    by (auto simp: Batch_do_def split: option.split_asm if_split_asm)
  from finished_with_error[OF tracked_run[OF r] e] show ?thesis .
qed

lemma download_throws:
  assumes "k < length (offsets offset (offset + count) bs)"
    and "snd (resume_op (download_operations env prog bs offset count ! k) st) = Some e"
  shows "\<exists>m. e = CallbackError m"
  using assms
  by (auto simp: download_operations_def download_operation_def nth_enumerate_eq Let_def
           split: if_split_asm prod.split_asm)

lemma download_batch_error:
  assumes "Batch_do limit (download_operations env prog bs offset count) order st = Some (Some e, st')"
  shows "(\<exists>m. e = RemoteError m) \<or> (\<exists>m. e = CallbackError m)"
proof -
  from batch_error_settles[OF assms] obtain k
    where k: "k < length (offsets offset (offset + count) bs)"
      and d: "settles (download_operations env prog bs offset count ! k) = Some e \<or>
           (\<exists>st. snd (resume_op (download_operations env prog bs offset count ! k) st) = Some e)"
    by auto
  from d show ?thesis
  proof
    assume "settles (download_operations env prog bs offset count ! k) = Some e"
    then show ?thesis using k by (auto simp: download_settles)
  next
    assume "\<exists>st. snd (resume_op (download_operations env prog bs offset count ! k) st) = Some e"
    then obtain st where
      "snd (resume_op (download_operations env prog bs offset count ! k) st) = Some e"
      by blast
    from download_throws[OF k this] show ?thesis by blast
  qed
qed

lemma resolve_count_cases:
  "resolve_count env offset count bufferLength = (cs, r) \<Longrightarrow>
     cs = (if count = 0 then [GetProperties] else [])
     \<and> (case r of
           Inl e \<Rightarrow> (\<exists>m. e = RemoteError m) \<or> (\<exists>c. e = ResolvedCountNegative c)
                     \<or> (\<exists>c. e = BufferTooSmall c)
         | Inr c \<Rightarrow> c \<le> bufferLength)"
  by (auto simp: resolve_count_def Let_def split: if_split_asm sum.split_asm sum.split)

lemma download_options_cases:
  "download_options C offset count opts = (opts', r) \<Longrightarrow>
     (case r of
        Inl e \<Rightarrow> e = BlockSizeNegative \<or> e = OffsetNegative \<or> e = CountNegative
      | Inr bs \<Rightarrow> 0 \<le> offset \<and> 0 \<le> count)"
  by (auto simp: download_options_def Let_def split: if_split_asm sum.split)

lemma download_end:
  assumes "DownloadBlobToBuffer C env order offset count bufferLength opts = Some out"
  shows "(\<exists>e. result out = Inl e \<and> download_options C offset count opts = (options_after out, Inl e)
              \<and> final out = initial)
       \<or> (\<exists>bs cs e. download_options C offset count opts = (options_after out, Inr bs)
              \<and> resolve_count env offset count bufferLength = (cs, Inl e)
              \<and> result out = Inl e \<and> final out = initial\<lparr> calls := cs \<rparr>)
       \<or> (\<exists>bs cs count'. download_options C offset count opts = (options_after out, Inr bs)
              \<and> resolve_count env offset count bufferLength = (cs, Inr count')
              \<and> (result out = Inr () \<or> (\<exists>m. result out = Inl (RemoteError m))
                   \<or> (\<exists>m. result out = Inl (CallbackError m))))"
proof -
  obtain opts' r where o: "download_options C offset count opts = (opts', r)"
    by (cases "download_options C offset count opts")
  show ?thesis
  proof (cases r)
    case (Inl e)
    with assms o show ?thesis by (auto simp: DownloadBlobToBuffer_def)
  next
    case (Inr bs)
    obtain cs r' where rc: "resolve_count env offset count bufferLength = (cs, r')"
      by (cases "resolve_count env offset count bufferLength")
    show ?thesis
    proof (cases r')
      case (Inl e)
      with assms o Inr rc show ?thesis by (auto simp: DownloadBlobToBuffer_def)
    next
      case (Inr count')
      show ?thesis
      proof (cases "Batch_do (Batch_new C (dl_parallelism opts'))
                         (download_operations env (dl_progress opts') bs offset count')
                         order (initial\<lparr> calls := cs \<rparr>)")
        case None
        with assms o \<open>r = Inr bs\<close> rc Inr show ?thesis
          by (auto simp: DownloadBlobToBuffer_def split: if_split_asm)
      next
        case (Some p)
        obtain fe st where p: "p = (fe, st)" by (cases p)
        show ?thesis
        proof (cases fe)
          case None
          with assms o \<open>r = Inr bs\<close> rc Inr Some p show ?thesis
            by (auto simp: DownloadBlobToBuffer_def split: if_split_asm)
        next
          case (Some e)
          from download_batch_error[OF \<open>Batch_do _ _ _ _ = Some p\<close>[unfolded p Some]]
          have "(\<exists>m. e = RemoteError m) \<or> (\<exists>m. e = CallbackError m)" .
          with assms o \<open>r = Inr bs\<close> rc Inr \<open>Batch_do _ _ _ _ = Some p\<close> p Some show ?thesis
            by (auto simp: DownloadBlobToBuffer_def split: if_split_asm)
        qed
      qed
    qed
  qed
qed

lemma download_rejected_blockSize:
  assumes "dl_blockSize opts = Some b" and "b < 0"
  shows "DownloadBlobToBuffer C env order offset count bufferLength opts =
           Some \<lparr> result = Inl BlockSizeNegative, options_after = opts, final = initial \<rparr>"
  using assms by (simp add: DownloadBlobToBuffer_def download_options_def Let_def)

lemma download_rejected_offset:
  assumes "dl_blockSize opts = None \<or> (\<exists>b. dl_blockSize opts = Some b \<and> 0 \<le> b)"
    and "offset < 0"
  shows "\<exists>opts'. DownloadBlobToBuffer C env order offset count bufferLength opts =
           Some \<lparr> result = Inl OffsetNegative, options_after = opts', final = initial \<rparr>"
  using assms by (auto simp: DownloadBlobToBuffer_def download_options_def Let_def)

lemma download_rejected_count:
  assumes "dl_blockSize opts = None \<or> (\<exists>b. dl_blockSize opts = Some b \<and> 0 \<le> b)"
    and "0 \<le> offset" and "count < 0"
  shows "\<exists>opts'. DownloadBlobToBuffer C env order offset count bufferLength opts =
           Some \<lparr> result = Inl CountNegative, options_after = opts', final = initial \<rparr>"
  using assms by (auto simp: DownloadBlobToBuffer_def download_options_def Let_def)

lemma download_rejected_buffer:
  assumes "dl_blockSize opts = None \<or> (\<exists>b. dl_blockSize opts = Some b \<and> 0 \<le> b)"
    and "0 \<le> offset" and "0 < count" and "bufferLength < count"
  shows "\<exists>opts'. DownloadBlobToBuffer C env order offset count bufferLength opts =
           Some \<lparr> result = Inl (BufferTooSmall count), options_after = opts', final = initial \<rparr>"
  using assms
  by (auto simp: DownloadBlobToBuffer_def download_options_def resolve_count_def Let_def initial_def)

lemma download_rejected_buffer_resolved:
  assumes "dl_blockSize opts = None \<or> (\<exists>b. dl_blockSize opts = Some b \<and> 0 \<le> b)"
    and "0 \<le> offset" and "count = 0" and "getProperties_result env = Inr len"
    and "offset \<le> len" and "bufferLength < len - offset"
  shows "\<exists>opts'. DownloadBlobToBuffer C env order offset count bufferLength opts =
           Some \<lparr> result = Inl (BufferTooSmall (len - offset)), options_after = opts',
                  final = initial\<lparr> calls := [GetProperties] \<rparr> \<rparr>"
  using assms
  by (auto simp: DownloadBlobToBuffer_def download_options_def resolve_count_def Let_def)

lemma download_error_calls:
  assumes "DownloadBlobToBuffer C env order offset count bufferLength opts = Some out"
  shows "(result out = Inl BlockSizeNegative \<or> result out = Inl OffsetNegative
            \<or> result out = Inl CountNegative) \<longrightarrow> calls (final out) = []"
    and "\<forall>c. result out = Inl (BufferTooSmall c) \<longrightarrow>
           calls (final out) = (if count = 0 then [GetProperties] else [])"
proof -
  note d = download_end[OF assms]
  show "(result out = Inl BlockSizeNegative \<or> result out = Inl OffsetNegative
            \<or> result out = Inl CountNegative) \<longrightarrow> calls (final out) = []"
    using d by (auto simp: initial_def dest!: resolve_count_cases)
  show "\<forall>c. result out = Inl (BufferTooSmall c) \<longrightarrow>
           calls (final out) = (if count = 0 then [GetProperties] else [])"
    using d by (auto simp: initial_def dest!: resolve_count_cases download_options_cases)
qed

text \<open>
  Claim C5, as the code has it. For every input and every schedule: a negative block
  size, a negative offset and a negative count are rejected with no remote call issued;
  a buffer shorter than a non-zero count is rejected with no remote call issued; for a
  count of 0 the buffer is checked against the length resolved from the metadata, so
  the check is preceded by exactly one remote call, \<^verbatim>\<open>getProperties\<close>, and by no
  ranged read. Conversely, whenever the function returns one of these errors, the remote
  calls issued are as said.
\<close>

theorem C5_configuration_errors_and_remote_calls:
  "(\<forall>b. dl_blockSize opts = Some b \<and> b < 0 \<longrightarrow>
      DownloadBlobToBuffer C env order offset count bufferLength opts =
        Some \<lparr> result = Inl BlockSizeNegative, options_after = opts, final = initial \<rparr>)
   \<and> ((dl_blockSize opts = None \<or> (\<exists>b. dl_blockSize opts = Some b \<and> 0 \<le> b)) \<longrightarrow>
       (offset < 0 \<longrightarrow>
         (\<exists>opts'. DownloadBlobToBuffer C env order offset count bufferLength opts =
            Some \<lparr> result = Inl OffsetNegative, options_after = opts', final = initial \<rparr>))
       \<and> (0 \<le> offset \<and> count < 0 \<longrightarrow>
         (\<exists>opts'. DownloadBlobToBuffer C env order offset count bufferLength opts =
            Some \<lparr> result = Inl CountNegative, options_after = opts', final = initial \<rparr>))
       \<and> (0 \<le> offset \<and> 0 < count \<and> bufferLength < count \<longrightarrow>
         (\<exists>opts'. DownloadBlobToBuffer C env order offset count bufferLength opts =
            Some \<lparr> result = Inl (BufferTooSmall count), options_after = opts',
                   final = initial \<rparr>))
       \<and> (\<forall>len. 0 \<le> offset \<and> count = 0 \<and> getProperties_result env = Inr len
                 \<and> offset \<le> len \<and> bufferLength < len - offset \<longrightarrow>
         (\<exists>opts'. DownloadBlobToBuffer C env order offset count bufferLength opts =
            Some \<lparr> result = Inl (BufferTooSmall (len - offset)), options_after = opts',
                   final = initial\<lparr> calls := [GetProperties] \<rparr> \<rparr>)))
   \<and> (\<forall>out. DownloadBlobToBuffer C env order offset count bufferLength opts = Some out \<longrightarrow>
        ((result out = Inl BlockSizeNegative \<or> result out = Inl OffsetNegative
            \<or> result out = Inl CountNegative) \<longrightarrow> calls (final out) = [])
        \<and> (\<forall>c. result out = Inl (BufferTooSmall c) \<longrightarrow>
              calls (final out) = (if count = 0 then [GetProperties] else [])))"
proof (intro conjI allI impI)
  fix b assume "dl_blockSize opts = Some b \<and> b < 0"
  then show "DownloadBlobToBuffer C env order offset count bufferLength opts =
        Some \<lparr> result = Inl BlockSizeNegative, options_after = opts, final = initial \<rparr>"
    using download_rejected_blockSize by blast
next
  assume "dl_blockSize opts = None \<or> (\<exists>b. dl_blockSize opts = Some b \<and> 0 \<le> b)" "offset < 0"
  then show "\<exists>opts'. DownloadBlobToBuffer C env order offset count bufferLength opts =
            Some \<lparr> result = Inl OffsetNegative, options_after = opts', final = initial \<rparr>"
    by (rule download_rejected_offset)
next
  assume "dl_blockSize opts = None \<or> (\<exists>b. dl_blockSize opts = Some b \<and> 0 \<le> b)"
    "0 \<le> offset \<and> count < 0"
  then show "\<exists>opts'. DownloadBlobToBuffer C env order offset count bufferLength opts =
            Some \<lparr> result = Inl CountNegative, options_after = opts', final = initial \<rparr>"
    using download_rejected_count by blast
next
  assume "dl_blockSize opts = None \<or> (\<exists>b. dl_blockSize opts = Some b \<and> 0 \<le> b)"
    "0 \<le> offset \<and> 0 < count \<and> bufferLength < count"
  then show "\<exists>opts'. DownloadBlobToBuffer C env order offset count bufferLength opts =
            Some \<lparr> result = Inl (BufferTooSmall count), options_after = opts',
                   final = initial \<rparr>"
    using download_rejected_buffer by blast
next
  fix len
  assume "dl_blockSize opts = None \<or> (\<exists>b. dl_blockSize opts = Some b \<and> 0 \<le> b)"
    "0 \<le> offset \<and> count = 0 \<and> getProperties_result env = Inr len
                 \<and> offset \<le> len \<and> bufferLength < len - offset"
  then show "\<exists>opts'. DownloadBlobToBuffer C env order offset count bufferLength opts =
            Some \<lparr> result = Inl (BufferTooSmall (len - offset)), options_after = opts',
                   final = initial\<lparr> calls := [GetProperties] \<rparr> \<rparr>"
    using download_rejected_buffer_resolved by blast
next
  fix out
  assume "DownloadBlobToBuffer C env order offset count bufferLength opts = Some out"
    "result out = Inl BlockSizeNegative \<or> result out = Inl OffsetNegative
            \<or> result out = Inl CountNegative"
  then show "calls (final out) = []"
    using download_error_calls(1) by blast
next
  fix out c
  assume "DownloadBlobToBuffer C env order offset count bufferLength opts = Some out"
    "result out = Inl (BufferTooSmall c)"
  then show "calls (final out) = (if count = 0 then [GetProperties] else [])"
    using download_error_calls(2) by blast
qed

text \<open>
  The theorem at the constants of the service, against a blob of 8 bytes: an empty
  buffer with count 0, a buffer of 4 bytes with count 10, and the offset -1.
\<close>

theorem C5_configuration_errors_and_remote_calls_witness:
  "(\<exists>opts'. DownloadBlobToBuffer service_constants all_succeed [] 0 0 0 no_download_options =
       Some \<lparr> result = Inl (BufferTooSmall (8 - 0)), options_after = opts',
              final = initial\<lparr> calls := [GetProperties] \<rparr> \<rparr>)
   \<and> (\<exists>opts'. DownloadBlobToBuffer service_constants all_succeed [] 0 10 4 no_download_options =
       Some \<lparr> result = Inl (BufferTooSmall 10), options_after = opts', final = initial \<rparr>)
   \<and> (\<exists>opts'. DownloadBlobToBuffer service_constants all_succeed [] (- 1) 10 4 no_download_options =
       Some \<lparr> result = Inl OffsetNegative, options_after = opts', final = initial \<rparr>)"
proof -
  have h: "dl_blockSize no_download_options = None
           \<or> (\<exists>b. dl_blockSize no_download_options = Some b \<and> 0 \<le> b)"
    by (simp add: no_download_options_def)
  have g: "0 \<le> (0::int) \<and> (0::int) = 0 \<and> getProperties_result all_succeed = Inr 8
           \<and> (0::int) \<le> 8 \<and> (0::int) < 8 - 0"
    by (simp add: all_succeed_def)
  have g': "0 \<le> (0::int) \<and> (0::int) < 10 \<and> (4::int) < 10" by simp
  have g'': "(- 1 :: int) < 0" by simp
  note t1 = C5_configuration_errors_and_remote_calls[where C = service_constants
      and env = all_succeed and order = "[]" and offset = 0 and count = 0 and bufferLength = 0
      and opts = no_download_options]
  note t2 = C5_configuration_errors_and_remote_calls[where C = service_constants
      and env = all_succeed and order = "[]" and offset = 0 and count = 10 and bufferLength = 4
      and opts = no_download_options]
  note t3 = C5_configuration_errors_and_remote_calls[where C = service_constants
      and env = all_succeed and order = "[]" and offset = "- 1" and count = 10
      and bufferLength = 4 and opts = no_download_options]
  note p1 = t1[THEN conjunct2, THEN conjunct1, THEN mp, OF h]
  note p2 = t2[THEN conjunct2, THEN conjunct1, THEN mp, OF h]
  note p3 = t3[THEN conjunct2, THEN conjunct1, THEN mp, OF h]
  note a = p1[THEN conjunct2, THEN conjunct2, THEN conjunct2, THEN spec, THEN mp, OF g]
  note b = p2[THEN conjunct2, THEN conjunct2, THEN conjunct1, THEN mp, OF g']
  note c = p3[THEN conjunct1, THEN mp, OF g'']
  from a b c show ?thesis by (intro conjI)
qed

text \<open>
  Claim C5 as stated fails for a count of 0: the buffer error is raised after
  \<^verbatim>\<open>getProperties\<close> has been called.
\<close>

theorem C5_buffer_check_after_getProperties:
  "DownloadBlobToBuffer service_constants all_succeed [] 0 0 0 no_download_options =
     Some \<lparr> result = Inl (BufferTooSmall 8),
            options_after = \<lparr> dl_blockSize = Some 4194304, dl_parallelism = None,
               dl_progress = False, dl_blobAccessConditions = Some empty_conditions \<rparr>,
            final = \<lparr> blockList = [], blockNum = 0, transferProgress = 0, events = [],
               calls = [GetProperties], regions = [] \<rparr> \<rparr>"
  by code_simp

section \<open>The option objects after the call\<close>

lemma upload_options_after:
  "UploadResetableStreamToBlockBlob C gen env order sz opts = Some out \<Longrightarrow>
     options_after out = fst (upload_options C sz opts)"
  by (auto simp: UploadResetableStreamToBlockBlob_def Let_def
           split: prod.split_asm sum.split_asm if_split_asm option.split_asm)

lemma download_options_after:
  "DownloadBlobToBuffer C env order offset count bufferLength opts = Some out \<Longrightarrow>
     options_after out = fst (download_options C offset count opts)"
  by (auto simp: DownloadBlobToBuffer_def Let_def
           split: prod.split_asm sum.split_asm if_split_asm option.split_asm)

lemma stream_options_after:
  "UploadStreamToBlockBlob gen env order streamLength bufferSize maxBuffers opts = Some out \<Longrightarrow>
     options_after out = stream_options opts"
  by (auto simp: UploadStreamToBlockBlob_def Let_def
           split: prod.split_asm sum.split_asm if_split_asm option.split_asm)

lemma upload_options_blockSize_set:
  "blockSize (fst (upload_options C sz opts)) \<noteq> None"
  by (simp add: upload_options_def Let_def)

lemma upload_options_rejected:
  "snd (upload_options C sz opts) = Inl e \<Longrightarrow>
     fst (upload_options C sz opts) =
       (if blockSize opts = None then opts\<lparr> blockSize := Some 0 \<rparr> else opts)"
  by (cases "blockSize opts") (auto simp: upload_options_def Let_def split: if_split_asm)

lemma upload_options_unset:
  assumes "blockSize opts = None \<or> blockSize opts = Some 0"
    and "snd (upload_options C sz opts) = Inr bs"
  shows "upload_options C sz opts =
     (opts\<lparr> blockSize := Some bs,
            blobHTTPHeaders := Some (case blobHTTPHeaders opts of None \<Rightarrow> [] | Some h \<Rightarrow> h),
            blobAccessConditions := Some (case blobAccessConditions opts of
                                            None \<Rightarrow> empty_conditions | Some c \<Rightarrow> c) \<rparr>,
      Inr bs)"
    and "bs = (if BLOCK_BLOB_MAX_UPLOAD_BLOB_BYTES C < sz
               then max \<lceil>real_of_int sz / real_of_int (BLOCK_BLOB_MAX_BLOCKS C)\<rceil>
                        (BLOB_DEFAULT_DOWNLOAD_BLOCK_BYTES C)
               else 0)"
proof -
  have o1: "(if blockSize opts = None \<or> blockSize opts = Some 0
             then opts\<lparr> blockSize := Some 0 \<rparr> else opts) = opts\<lparr> blockSize := Some 0 \<rparr>"
    using assms(1) by simp
  show "bs = (if BLOCK_BLOB_MAX_UPLOAD_BLOB_BYTES C < sz
               then max \<lceil>real_of_int sz / real_of_int (BLOCK_BLOB_MAX_BLOCKS C)\<rceil>
                        (BLOB_DEFAULT_DOWNLOAD_BLOCK_BYTES C)
               else 0)"
    using assms(2) unfolding upload_options_def o1
    by (simp add: Let_def max_def split: if_split_asm)
  show "upload_options C sz opts =
     (opts\<lparr> blockSize := Some bs,
            blobHTTPHeaders := Some (case blobHTTPHeaders opts of None \<Rightarrow> [] | Some h \<Rightarrow> h),
            blobAccessConditions := Some (case blobAccessConditions opts of
                                            None \<Rightarrow> empty_conditions | Some c \<Rightarrow> c) \<rparr>,
      Inr bs)"
    using assms(2) unfolding upload_options_def o1
    by (cases "blobHTTPHeaders opts"; cases "blobAccessConditions opts")
       (simp_all add: Let_def split: if_split_asm)
qed

lemma upload_options_given:
  assumes "blockSize opts = Some b" and "b \<noteq> 0"
    and "snd (upload_options C sz opts) = Inr bs"
  shows "upload_options C sz opts =
     (opts\<lparr> blockSize := Some bs,
            blobHTTPHeaders := Some (case blobHTTPHeaders opts of None \<Rightarrow> [] | Some h \<Rightarrow> h),
            blobAccessConditions := Some (case blobAccessConditions opts of
                                            None \<Rightarrow> empty_conditions | Some c \<Rightarrow> c) \<rparr>,
      Inr bs)"
    and "bs = b"
proof -
  have o1: "(if blockSize opts = None \<or> blockSize opts = Some 0
             then opts\<lparr> blockSize := Some 0 \<rparr> else opts) = opts"
    using assms(1,2) by simp
  show "bs = b"
    using assms unfolding upload_options_def o1
    by (simp add: Let_def split: if_split_asm)
  show "upload_options C sz opts =
     (opts\<lparr> blockSize := Some bs,
            blobHTTPHeaders := Some (case blobHTTPHeaders opts of None \<Rightarrow> [] | Some h \<Rightarrow> h),
            blobAccessConditions := Some (case blobAccessConditions opts of
                                            None \<Rightarrow> empty_conditions | Some c \<Rightarrow> c) \<rparr>,
      Inr bs)"
    using assms unfolding upload_options_def o1
    by (cases "blobHTTPHeaders opts"; cases "blobAccessConditions opts")
       (simp_all add: Let_def split: if_split_asm)
qed

lemma download_options_fields:
  "dl_blockSize (fst (download_options C offset count opts)) \<noteq> None"
  "snd (download_options C offset count opts) = Inr bs \<Longrightarrow>
     dl_blockSize (fst (download_options C offset count opts)) = Some bs
     \<and> bs = (if dl_blockSize opts = None \<or> dl_blockSize opts = Some 0
             then BLOB_DEFAULT_DOWNLOAD_BLOCK_BYTES C else the (dl_blockSize opts))
     \<and> dl_blobAccessConditions (fst (download_options C offset count opts)) =
          Some (case dl_blobAccessConditions opts of None \<Rightarrow> empty_conditions | Some c \<Rightarrow> c)
     \<and> dl_parallelism (fst (download_options C offset count opts)) = dl_parallelism opts
     \<and> dl_progress (fst (download_options C offset count opts)) = dl_progress opts"
  "snd (download_options C offset count opts) = Inl e \<Longrightarrow>
     dl_blobAccessConditions (fst (download_options C offset count opts)) =
       dl_blobAccessConditions opts"
  by (auto simp: download_options_def Let_def split: if_split_asm option.split)

lemma stream_options_fields:
  "st_blobHTTPHeaders (stream_options opts) =
     Some (case st_blobHTTPHeaders opts of None \<Rightarrow> [] | Some h \<Rightarrow> h)"
  "st_accessConditions (stream_options opts) =
     Some (case st_accessConditions opts of None \<Rightarrow> empty_conditions | Some c \<Rightarrow> c)"
  "st_progress (stream_options opts) = st_progress opts"
  by (auto simp: stream_options_def Let_def split: option.split)

lemma stream_options_eq:
  "stream_options opts =
     opts\<lparr> st_blobHTTPHeaders := Some (case st_blobHTTPHeaders opts of None \<Rightarrow> [] | Some h \<Rightarrow> h),
           st_accessConditions := Some (case st_accessConditions opts of
                                          None \<Rightarrow> empty_conditions | Some c \<Rightarrow> c) \<rparr>"
  by (cases "st_blobHTTPHeaders opts"; cases "st_accessConditions opts")
     (simp_all add: stream_options_def Let_def)

lemma upload_options_accepted:
  assumes "snd (upload_options C sz opts) = Inr bs"
  shows "fst (upload_options C sz opts) =
           opts\<lparr> blockSize := Some bs,
                 blobHTTPHeaders := Some (case blobHTTPHeaders opts of None \<Rightarrow> [] | Some h \<Rightarrow> h),
                 blobAccessConditions := Some (case blobAccessConditions opts of
                                                 None \<Rightarrow> empty_conditions | Some c \<Rightarrow> c) \<rparr>
         \<and> bs = (case blockSize opts of
                   None \<Rightarrow> (if BLOCK_BLOB_MAX_UPLOAD_BLOB_BYTES C < sz
                            then max \<lceil>real_of_int sz / real_of_int (BLOCK_BLOB_MAX_BLOCKS C)\<rceil>
                                     (BLOB_DEFAULT_DOWNLOAD_BLOCK_BYTES C)
                            else 0)
                 | Some b \<Rightarrow> (if b = 0
                              then (if BLOCK_BLOB_MAX_UPLOAD_BLOB_BYTES C < sz
                                    then max \<lceil>real_of_int sz / real_of_int (BLOCK_BLOB_MAX_BLOCKS C)\<rceil>
                                             (BLOB_DEFAULT_DOWNLOAD_BLOCK_BYTES C)
                                    else 0)
                              else b))"
proof (cases "blockSize opts")
  case None
  then have u: "blockSize opts = None \<or> blockSize opts = Some 0" by simp
  from upload_options_unset[OF u assms] None show ?thesis by simp
next
  case (Some b)
  show ?thesis
  proof (cases "b = 0")
    case True
    with Some have u: "blockSize opts = None \<or> blockSize opts = Some 0" by simp
    from upload_options_unset[OF u assms] Some True show ?thesis by simp
  next
    case False
    from upload_options_given[OF Some False assms] Some False show ?thesis by simp
  qed
qed

text \<open>
  Claim C10, as the code has it. The options object the caller sees after the call:
  \<^item> \<^verbatim>\<open>UploadResetableStreamToBlockBlob\<close>: \<open>blockSize\<close> is always set; when the call
    passes the two checks of lines 95 to 106, an unset \<open>blockSize\<close> (absent or 0) holds
    the computed block size, and absent \<open>blobHTTPHeaders\<close> and \<open>blobAccessConditions\<close>
    hold the empty object, the properties that were set being kept; when one of the two
    checks rejects the call, only an absent \<open>blockSize\<close> has been overwritten, with 0.
  \<^item> \<^verbatim>\<open>DownloadBlobToBuffer\<close>: \<open>blockSize\<close> is always set; when the call passes the
    checks of lines 195 to 208, an unset \<open>blockSize\<close> holds the default block size and an
    absent \<open>blobAccessConditions\<close> the empty object; when a check rejects the call,
    \<open>blobAccessConditions\<close> is as it was.
  \<^item> \<^verbatim>\<open>UploadStreamToBlockBlob\<close>: absent \<open>blobHTTPHeaders\<close> and \<open>accessConditions\<close> hold
    the empty object.
\<close>

theorem C10_options_mutated_in_place:
  "(\<forall>out. UploadResetableStreamToBlockBlob C gen env order sz opts = Some out \<longrightarrow>
       blockSize (options_after out) \<noteq> None
     \<and> (\<forall>bs. snd (upload_options C sz opts) = Inr bs \<longrightarrow>
           options_after out =
             opts\<lparr> blockSize := Some bs,
                   blobHTTPHeaders := Some (case blobHTTPHeaders opts of None \<Rightarrow> [] | Some h \<Rightarrow> h),
                   blobAccessConditions := Some (case blobAccessConditions opts of
                                                   None \<Rightarrow> empty_conditions | Some c \<Rightarrow> c) \<rparr>
         \<and> bs = (case blockSize opts of
                   None \<Rightarrow> (if BLOCK_BLOB_MAX_UPLOAD_BLOB_BYTES C < sz
                            then max \<lceil>real_of_int sz / real_of_int (BLOCK_BLOB_MAX_BLOCKS C)\<rceil>
                                     (BLOB_DEFAULT_DOWNLOAD_BLOCK_BYTES C)
                            else 0)
                 | Some b \<Rightarrow> (if b = 0
                              then (if BLOCK_BLOB_MAX_UPLOAD_BLOB_BYTES C < sz
                                    then max \<lceil>real_of_int sz / real_of_int (BLOCK_BLOB_MAX_BLOCKS C)\<rceil>
                                             (BLOB_DEFAULT_DOWNLOAD_BLOCK_BYTES C)
                                    else 0)
                              else b)))
     \<and> (\<forall>e. snd (upload_options C sz opts) = Inl e \<longrightarrow>
           options_after out =
             (if blockSize opts = None then opts\<lparr> blockSize := Some 0 \<rparr> else opts)))
   \<and> (\<forall>dout. DownloadBlobToBuffer C env' order' offset count bufferLength dopts = Some dout \<longrightarrow>
       dl_blockSize (options_after dout) \<noteq> None
     \<and> (\<forall>bs. snd (download_options C offset count dopts) = Inr bs \<longrightarrow>
           dl_blockSize (options_after dout) = Some bs
         \<and> bs = (if dl_blockSize dopts = None \<or> dl_blockSize dopts = Some 0
                 then BLOB_DEFAULT_DOWNLOAD_BLOCK_BYTES C else the (dl_blockSize dopts))
         \<and> dl_blobAccessConditions (options_after dout) =
              Some (case dl_blobAccessConditions dopts of
                      None \<Rightarrow> empty_conditions | Some c \<Rightarrow> c)
         \<and> dl_parallelism (options_after dout) = dl_parallelism dopts
         \<and> dl_progress (options_after dout) = dl_progress dopts)
     \<and> (\<forall>e. snd (download_options C offset count dopts) = Inl e \<longrightarrow>
           dl_blobAccessConditions (options_after dout) = dl_blobAccessConditions dopts))
   \<and> (\<forall>sout. UploadStreamToBlockBlob gen'' env'' order'' streamLength bufferSize maxBuffers sopts
                = Some sout \<longrightarrow>
       options_after sout =
         sopts\<lparr> st_blobHTTPHeaders := Some (case st_blobHTTPHeaders sopts of
                                             None \<Rightarrow> [] | Some h \<Rightarrow> h),
                st_accessConditions := Some (case st_accessConditions sopts of
                                               None \<Rightarrow> empty_conditions | Some c \<Rightarrow> c) \<rparr>)"
proof (intro conjI allI impI)
  fix out assume up: "UploadResetableStreamToBlockBlob C gen env order sz opts = Some out"
  note oa = upload_options_after[OF up]
  show "blockSize (options_after out) \<noteq> None"
    unfolding oa by (rule upload_options_blockSize_set)
  { fix bs assume a: "snd (upload_options C sz opts) = Inr bs"
    from upload_options_accepted[OF a]
    show "options_after out =
             opts\<lparr> blockSize := Some bs,
                   blobHTTPHeaders := Some (case blobHTTPHeaders opts of None \<Rightarrow> [] | Some h \<Rightarrow> h),
                   blobAccessConditions := Some (case blobAccessConditions opts of
                                                   None \<Rightarrow> empty_conditions | Some c \<Rightarrow> c) \<rparr>"
      unfolding oa by simp
    from upload_options_accepted[OF a]
    show "bs = (case blockSize opts of
                   None \<Rightarrow> (if BLOCK_BLOB_MAX_UPLOAD_BLOB_BYTES C < sz
                            then max \<lceil>real_of_int sz / real_of_int (BLOCK_BLOB_MAX_BLOCKS C)\<rceil>
                                     (BLOB_DEFAULT_DOWNLOAD_BLOCK_BYTES C)
                            else 0)
                 | Some b \<Rightarrow> (if b = 0
                              then (if BLOCK_BLOB_MAX_UPLOAD_BLOB_BYTES C < sz
                                    then max \<lceil>real_of_int sz / real_of_int (BLOCK_BLOB_MAX_BLOCKS C)\<rceil>
                                             (BLOB_DEFAULT_DOWNLOAD_BLOCK_BYTES C)
                                    else 0)
                              else b))"
      by simp }
  { fix e assume a: "snd (upload_options C sz opts) = Inl e"
    show "options_after out =
             (if blockSize opts = None then opts\<lparr> blockSize := Some 0 \<rparr> else opts)"
      unfolding oa using a by (rule upload_options_rejected) }
next
  fix dout assume d: "DownloadBlobToBuffer C env' order' offset count bufferLength dopts = Some dout"
  note oa = download_options_after[OF d]
  show "dl_blockSize (options_after dout) \<noteq> None"
    unfolding oa by (rule download_options_fields(1))
  { fix bs assume a: "snd (download_options C offset count dopts) = Inr bs"
    note f = download_options_fields(2)[OF a]
    show "dl_blockSize (options_after dout) = Some bs" unfolding oa using f by simp
    show "bs = (if dl_blockSize dopts = None \<or> dl_blockSize dopts = Some 0
                 then BLOB_DEFAULT_DOWNLOAD_BLOCK_BYTES C else the (dl_blockSize dopts))"
      using f by simp
    show "dl_blobAccessConditions (options_after dout) =
              Some (case dl_blobAccessConditions dopts of
                      None \<Rightarrow> empty_conditions | Some c \<Rightarrow> c)"
      unfolding oa using f by simp
    show "dl_parallelism (options_after dout) = dl_parallelism dopts" unfolding oa using f by simp
    show "dl_progress (options_after dout) = dl_progress dopts" unfolding oa using f by simp }
  { fix e assume a: "snd (download_options C offset count dopts) = Inl e"
    show "dl_blobAccessConditions (options_after dout) = dl_blobAccessConditions dopts"
      unfolding oa using a by (rule download_options_fields(3)) }
next
  fix sout
  assume s: "UploadStreamToBlockBlob gen'' env'' order'' streamLength bufferSize maxBuffers sopts
                = Some sout"
  show "options_after sout =
         sopts\<lparr> st_blobHTTPHeaders := Some (case st_blobHTTPHeaders sopts of
                                             None \<Rightarrow> [] | Some h \<Rightarrow> h),
                st_accessConditions := Some (case st_accessConditions sopts of
                                               None \<Rightarrow> empty_conditions | Some c \<Rightarrow> c) \<rparr>"
    unfolding stream_options_after[OF s] by (rule stream_options_eq)
qed

text \<open>
  The theorem at a single upload call of 100 bytes, at a download into an empty buffer
  and at the stream upload of 10 bytes, each with nothing set in the options.
\<close>

theorem C10_options_mutated_in_place_witness:
  "UploadResetableStreamToBlockBlob service_constants (\<lambda>i. i) all_succeed [] 100
       no_upload_options =
     Some \<lparr> result = Inr ''uploaded'',
            options_after = \<lparr> blockSize = Some 0, parallelism = None, progress = False,
               blobHTTPHeaders = Some [], blobAccessConditions = Some empty_conditions \<rparr>,
            final = \<lparr> blockList = [], blockNum = 0, transferProgress = 0, events = [],
               calls = [Upload 100], regions = [] \<rparr> \<rparr>
   \<and> snd (upload_options service_constants 100 no_upload_options) = Inr 0
   \<and> \<lparr> blockSize = Some 0, parallelism = None, progress = False,
        blobHTTPHeaders = Some [], blobAccessConditions = Some empty_conditions \<rparr> =
       no_upload_options\<lparr> blockSize := Some 0,
          blobHTTPHeaders := Some (case blobHTTPHeaders no_upload_options of
                                     None \<Rightarrow> [] | Some h \<Rightarrow> h),
          blobAccessConditions := Some (case blobAccessConditions no_upload_options of
                                          None \<Rightarrow> empty_conditions | Some c \<Rightarrow> c) \<rparr>
   \<and> DownloadBlobToBuffer service_constants all_succeed [] 0 0 0 no_download_options =
     Some \<lparr> result = Inl (BufferTooSmall 8),
            options_after = \<lparr> dl_blockSize = Some 4194304, dl_parallelism = None,
               dl_progress = False, dl_blobAccessConditions = Some empty_conditions \<rparr>,
            final = \<lparr> blockList = [], blockNum = 0, transferProgress = 0, events = [],
               calls = [GetProperties], regions = [] \<rparr> \<rparr>
   \<and> snd (download_options service_constants 0 0 no_download_options) = Inr 4194304
   \<and> Some empty_conditions =
       Some (case dl_blobAccessConditions no_download_options of
               None \<Rightarrow> empty_conditions | Some c \<Rightarrow> c)
   \<and> UploadStreamToBlockBlob (\<lambda>i. i) all_succeed [2, 1, 0] 10 4 4 no_stream_options =
     Some \<lparr> result = Inr ''committed'',
            options_after = \<lparr> st_blobHTTPHeaders = Some [],
               st_accessConditions = Some empty_conditions, st_progress = False \<rparr>,
            final = \<lparr> blockList = [0, 1, 2], blockNum = 3, transferProgress = 10,
               events = [],
               calls = [StageBlock 0 0 4, StageBlock 1 4 4, StageBlock 2 8 2,
                        CommitBlockList [0, 1, 2]],
               regions = [] \<rparr> \<rparr>
   \<and> \<lparr> st_blobHTTPHeaders = Some [], st_accessConditions = Some empty_conditions,
        st_progress = False \<rparr> =
       no_stream_options\<lparr> st_blobHTTPHeaders := Some (case st_blobHTTPHeaders no_stream_options of
                                                         None \<Rightarrow> [] | Some h \<Rightarrow> h),
          st_accessConditions := Some (case st_accessConditions no_stream_options of
                                         None \<Rightarrow> empty_conditions | Some c \<Rightarrow> c) \<rparr>"
proof -
  let ?out = "\<lparr> result = Inr ''uploaded'',
            options_after = \<lparr> blockSize = Some 0, parallelism = None, progress = False,
               blobHTTPHeaders = Some [], blobAccessConditions = Some empty_conditions \<rparr>,
            final = \<lparr> blockList = [], blockNum = 0, transferProgress = 0, events = [],
               calls = [Upload 100], regions = [] \<rparr> \<rparr>
            :: (nat, string, IUploadToBlockBlobOptions) outcome"
  let ?dout = "\<lparr> result = Inl (BufferTooSmall 8),
            options_after = \<lparr> dl_blockSize = Some 4194304, dl_parallelism = None,
               dl_progress = False, dl_blobAccessConditions = Some empty_conditions \<rparr>,
            final = \<lparr> blockList = [], blockNum = 0, transferProgress = 0, events = [],
               calls = [GetProperties], regions = [] \<rparr> \<rparr>
            :: (nat, unit, IDownloadFromBlobOptions) outcome"
  let ?sout = "\<lparr> result = Inr ''committed'',
            options_after = \<lparr> st_blobHTTPHeaders = Some [],
               st_accessConditions = Some empty_conditions, st_progress = False \<rparr>,
            final = \<lparr> blockList = [0, 1, 2], blockNum = 3, transferProgress = 10,
               events = [],
               calls = [StageBlock 0 0 4, StageBlock 1 4 4, StageBlock 2 8 2,
                        CommitBlockList [0, 1, 2]],
               regions = [] \<rparr> \<rparr>
            :: (nat, string, IUploadStreamToBlockBlobOptions) outcome"
  have up: "UploadResetableStreamToBlockBlob service_constants (\<lambda>i. i) all_succeed [] 100
       no_upload_options = Some ?out"
    by code_simp
  have uo: "snd (upload_options service_constants 100 no_upload_options) = Inr 0"
    by code_simp
  have d: "DownloadBlobToBuffer service_constants all_succeed [] 0 0 0 no_download_options =
       Some ?dout"
    by code_simp
  have dopt: "snd (download_options service_constants 0 0 no_download_options) = Inr 4194304"
    by code_simp
  have s: "UploadStreamToBlockBlob (\<lambda>i. i) all_succeed [2, 1, 0] 10 4 4 no_stream_options =
       Some ?sout"
    by code_simp
  note th = C10_options_mutated_in_place[where C = service_constants and gen = "\<lambda>i. i"
      and env = all_succeed and order = "[]" and sz = 100 and opts = no_upload_options
      and env' = "all_succeed :: (nat, string) remote" and order' = "[]" and offset = 0
      and count = 0 and bufferLength = 0
      and dopts = no_download_options and gen'' = "\<lambda>i. i" and env'' = all_succeed
      and order'' = "[2, 1, 0]" and streamLength = 10 and bufferSize = 4 and maxBuffers = 4
      and sopts = no_stream_options]
  note u1 = th[THEN conjunct1, THEN spec, THEN mp, OF up]
  note u2 = u1[THEN conjunct2, THEN conjunct1, THEN spec, THEN mp, OF uo, THEN conjunct1]
  note d1 = th[THEN conjunct2, THEN conjunct1, THEN spec, THEN mp, OF d]
  note d2 = d1[THEN conjunct2, THEN conjunct1, THEN spec, THEN mp, OF dopt,
               THEN conjunct2, THEN conjunct2, THEN conjunct1]
  note s1 = th[THEN conjunct2, THEN conjunct2, THEN spec, THEN mp, OF s]
  have a: "\<lparr> blockSize = Some 0, parallelism = None, progress = False,
        blobHTTPHeaders = Some [], blobAccessConditions = Some empty_conditions \<rparr> =
       no_upload_options\<lparr> blockSize := Some 0,
          blobHTTPHeaders := Some (case blobHTTPHeaders no_upload_options of
                                     None \<Rightarrow> [] | Some h \<Rightarrow> h),
          blobAccessConditions := Some (case blobAccessConditions no_upload_options of
                                          None \<Rightarrow> empty_conditions | Some c \<Rightarrow> c) \<rparr>"
    using u2 by (simp only: outcome.simps)
  have b: "Some empty_conditions =
       Some (case dl_blobAccessConditions no_download_options of
               None \<Rightarrow> empty_conditions | Some c \<Rightarrow> c)"
    using d2 by (simp only: outcome.simps IDownloadFromBlobOptions.simps)
  have c: "\<lparr> st_blobHTTPHeaders = Some [], st_accessConditions = Some empty_conditions,
        st_progress = False \<rparr> =
       no_stream_options\<lparr> st_blobHTTPHeaders := Some (case st_blobHTTPHeaders no_stream_options of
                                                         None \<Rightarrow> [] | Some h \<Rightarrow> h),
          st_accessConditions := Some (case st_accessConditions no_stream_options of
                                         None \<Rightarrow> empty_conditions | Some c \<Rightarrow> c) \<rparr>"
    using s1 by (simp only: outcome.simps)
  from up uo a d dopt b s c show ?thesis by (intro conjI)
qed

text \<open>
  Claim C10 as stated fails for a call that a check rejects: with the block size -1 the
  call throws at line 99, and \<open>blobHTTPHeaders\<close> and \<open>blobAccessConditions\<close> are still
  absent afterwards.
\<close>

theorem C10_rejected_call_leaves_headers_unset:
  "blobHTTPHeaders (no_upload_options\<lparr> blockSize := Some (- 1) \<rparr>) = None
   \<and> UploadResetableStreamToBlockBlob service_constants (\<lambda>i. i) all_succeed [] 300000000
       (no_upload_options\<lparr> blockSize := Some (- 1) \<rparr>) =
     Some \<lparr> result = Inl BlockSizeOutOfRange,
            options_after = \<lparr> blockSize = Some (- 1), parallelism = None, progress = False,
               blobHTTPHeaders = None, blobAccessConditions = None \<rparr>,
            final = initial \<rparr>"
  by code_simp

section \<open>The progress of an upload\<close>

text \<open>
  On the chunked path the content lengths of the blocks are positive and add up to the
  size, so \<^verbatim>\<open>transferProgress\<close> never decreases and, when every block has been
  staged and the progress callback has not thrown, ends at the size. The constants are taken with a positive block count and a
  non-negative limit of the single upload call.
\<close>

lemma sum_contentLength:
  assumes "0 < N"
  shows "(\<Sum>i < nat N. contentLength bs sz N i) = sz"
proof -
  obtain m where m: "nat N = Suc m" using assms by (cases "nat N") auto
  then have N: "N = int m + 1" using assms by linarith
  have "(\<Sum>i < m. contentLength bs sz N i) = (\<Sum>i < m. bs)"
    by (rule sum.cong) (auto simp: contentLength_def N)
  then have "(\<Sum>i < Suc m. contentLength bs sz N i) = int m * bs + (sz - bs * int m)"
    by (simp add: contentLength_def N)
  then show ?thesis unfolding m by (simp add: mult.commute)
qed

lemma numBlocks_of_positive:
  assumes "0 < sz" and "0 < bs"
  shows "0 < numBlocks_of sz bs"
proof -
  have "0 \<le> real_of_int (sz - 1) / real_of_int bs" using assms by simp
  then have "0 \<le> \<lfloor>real_of_int (sz - 1) / real_of_int bs\<rfloor>" by simp
  then show ?thesis by (simp add: numBlocks_of_def)
qed

lemma contentLength_positive:
  assumes "0 < sz" and "0 < bs" and "i < nat (numBlocks_of sz bs)"
  shows "0 < contentLength bs sz (numBlocks_of sz bs) i"
proof (cases "int i = numBlocks_of sz bs - 1")
  case True
  have bsr: "0 < real_of_int bs" using assms(2) by simp
  have "real_of_int \<lfloor>real_of_int (sz - 1) / real_of_int bs\<rfloor> * real_of_int bs
               \<le> real_of_int (sz - 1)"
    unfolding pos_le_divide_eq[OF bsr, symmetric] by (rule of_int_floor_le)
  then have "\<lfloor>real_of_int (sz - 1) / real_of_int bs\<rfloor> * bs \<le> sz - 1"
    by (metis of_int_le_iff of_int_mult)
  then have "bs * int i \<le> sz - 1"
    using True by (simp add: numBlocks_of_def mult.commute)
  then show ?thesis using True by (simp add: contentLength_def)
next
  case False
  then show ?thesis using assms(2) by (simp add: contentLength_def)
qed

lemma upload_accepted_block_size_positive:
  assumes a: "snd (upload_options C sz opts) = Inr bs"
    and "0 < BLOCK_BLOB_MAX_BLOCKS C" and "0 \<le> BLOCK_BLOB_MAX_UPLOAD_BLOB_BYTES C"
    and "BLOCK_BLOB_MAX_UPLOAD_BLOB_BYTES C < sz"
  shows "0 < bs"
proof (cases "blockSize opts = None \<or> blockSize opts = Some 0")
  case True
  have sz: "0 < sz" using assms(3,4) by simp
  have c: "0 < \<lceil>real_of_int sz / real_of_int (BLOCK_BLOB_MAX_BLOCKS C)\<rceil>"
    using ceil_least_pos[OF assms(2) sz] .
  from upload_options_unset(2)[OF True a] assms(4)
  have "bs = max \<lceil>real_of_int sz / real_of_int (BLOCK_BLOB_MAX_BLOCKS C)\<rceil>
                 (BLOB_DEFAULT_DOWNLOAD_BLOCK_BYTES C)"
    by simp
  moreover have "\<lceil>real_of_int sz / real_of_int (BLOCK_BLOB_MAX_BLOCKS C)\<rceil>
                   \<le> max \<lceil>real_of_int sz / real_of_int (BLOCK_BLOB_MAX_BLOCKS C)\<rceil>
                          (BLOB_DEFAULT_DOWNLOAD_BLOCK_BYTES C)"
    by (rule max.cobounded1)
  ultimately show ?thesis using c by linarith
next
  case False
  then obtain b where b: "blockSize opts = Some b" "b \<noteq> 0" by (cases "blockSize opts") auto
  have o1: "(if blockSize opts = None \<or> blockSize opts = Some 0
             then opts\<lparr> blockSize := Some 0 \<rparr> else opts) = opts"
    using b by simp
  have "0 \<le> b"
    using a b unfolding upload_options_def o1 by (simp add: Let_def split: if_split_asm)
  then show ?thesis using upload_options_given(2)[OF b a] b(2) by simp
qed

lemma upload_progress_total:
  assumes up: "UploadResetableStreamToBlockBlob C gen env order sz opts = Some out"
    and o: "upload_options C sz opts = (opts', Inr bs)"
    and big: "BLOCK_BLOB_MAX_UPLOAD_BLOB_BYTES C < sz"
    and n: "numBlocks_of sz bs \<le> BLOCK_BLOB_MAX_BLOCKS C"
    and ok: "\<forall>k < nat (numBlocks_of sz bs). stageBlock_result env k = None"
    and quiet: "\<not> progress opts' \<or> (\<forall>evs. progress_result env evs = None)"
    and C: "0 < BLOCK_BLOB_MAX_BLOCKS C" "0 \<le> BLOCK_BLOB_MAX_UPLOAD_BLOB_BYTES C"
  shows "transferProgress (final out) = sz"
proof -
  let ?ops = "upload_operations gen env (progress opts') bs sz"
  let ?n = "nat (numBlocks_of sz bs)"
  from upload_chunked_end[OF up o big n] obtain b where
    r: "run ?ops order (Batch_start (Batch_new C (parallelism opts')) ?ops initial) = Some b"
    and f: "finished ?ops b"
    and out: "out = (case firstError b of
                 Some e \<Rightarrow> \<lparr> result = Inl e, options_after = opts', final = shared b \<rparr>
               | None \<Rightarrow> \<lparr> result = rejected (commitBlockList_result env (blockList (shared b))),
                           options_after = opts',
                           final = (shared b)\<lparr> calls := calls (shared b) @
                                          [CommitBlockList (blockList (shared b))] \<rparr> \<rparr>)"
    by blast
  have "tracked ?ops (Batch_start (Batch_new C (parallelism opts')) ?ops initial)"
    unfolding Batch_start_def by (rule fill_tracked) (rule tracked_initial)
  from run_indices[OF r this] have "\<forall>k \<in> set order. stageBlock_result env k = None"
    using ok by simp
  then have "first_failure env (progress opts') (contentLength bs sz (numBlocks_of sz bs))
               (Some sz) order 0 [] = None"
    using quiet by (rule first_failure_quiet)
  then have fe: "firstError b = None" using upload_first_failure[OF r] by simp
  have cm: "completed ?ops b = {..<?n}"
    using finished_without_error(3)[OF tracked_run[OF r] f fe] by simp
  have bs: "0 < bs" using upload_accepted_block_size_positive[of C sz opts bs] o C big by simp
  have sz: "0 < sz" using C(2) big by simp
  have "transferProgress (shared b) = (\<Sum>i < ?n. contentLength bs sz (numBlocks_of sz bs) i)"
    using upload_batch_state(3)[OF r] cm by simp
  also have "\<dots> = sz" using numBlocks_of_positive[OF sz bs] by (rule sum_contentLength)
  finally show ?thesis using out fe by simp
qed

lemma completed_grows:
  assumes "run ops order b = Some b'" and "tracked ops b"
  shows "completed ops b \<subseteq> completed ops b'"
proof -
  define P where "P x \<longleftrightarrow> tracked ops x \<and> completed ops b \<subseteq> completed ops x" for x
  have "P b" using assms(2) by (simp add: P_def)
  with assms(1) have "P b'"
  proof (rule run_keeps)
    fix x assume "P x" "startable ops x"
    then show "P (start_next ops x)" by (simp add: P_def tracked_start completed_start)
  next
    fix x i assume "P x" "i \<in> set (active x)"
    then show "P (finish ops i x)"
      using completed_finish(1)[of ops x i] by (auto simp: P_def tracked_finish)
  qed
  then show ?thesis by (simp add: P_def)
qed

lemma upload_progress_monotone:
  fixes gen :: "nat \<Rightarrow> 'id" and env :: "('id, 'r) remote" and prog bs sz
  defines "ops \<equiv> upload_operations gen env prog bs sz"
  assumes r: "run ops order (Batch_start limit ops initial) = Some b"
    and r': "run ops rest b = Some b'"
    and sz: "0 < sz" and bs: "0 < bs"
  shows "transferProgress (shared b) \<le> transferProgress (shared b')"
proof -
  have r2: "run ops (order @ rest) (Batch_start limit ops initial) = Some b'"
    using r r' by (simp add: run_append)
  have t: "tracked ops b" using r by (rule tracked_run)
  have t': "tracked ops b'" using r2 by (rule tracked_run)
  have sub: "completed ops b \<subseteq> completed ops b'" using r' t by (rule completed_grows)
  have pos: "0 \<le> contentLength bs sz (numBlocks_of sz bs) i" if "i \<in> completed ops b'" for i
  proof -
    have "i < nat (numBlocks_of sz bs)"
      using that t' by (auto simp: completed_def tracked_def ops_def)
    from contentLength_positive[OF sz bs this] show ?thesis by simp
  qed
  have "(\<Sum>i \<in> completed ops b. contentLength bs sz (numBlocks_of sz bs) i)
          \<le> (\<Sum>i \<in> completed ops b'. contentLength bs sz (numBlocks_of sz bs) i)"
    using sub pos by (intro sum_mono2) (auto simp: finite_completed)
  then show ?thesis
    using upload_batch_state(3)[OF r[unfolded ops_def]] upload_batch_state(3)[OF r2[unfolded ops_def]]
    by (simp add: ops_def)
qed

section \<open>Every transfer returns under some schedule\<close>

text \<open>
  A batch with a positive cap has a complete run, whatever the remote operations do:
  settle the oldest active operation until none is active.
\<close>

lemma upload_returns:
  assumes "0 < Batch_new C (parallelism opts)"
  shows "\<exists>order out. UploadResetableStreamToBlockBlob C gen env order sz opts = Some out"
proof -
  obtain opts' r where o: "upload_options C sz opts = (opts', r)"
    by (cases "upload_options C sz opts")
  show ?thesis
  proof (cases r)
    case (Inl e)
    with o show ?thesis by (simp add: UploadResetableStreamToBlockBlob_def)
  next
    case (Inr bs)
    have p: "parallelism opts' = parallelism opts"
      using upload_options_accepted[of C sz opts bs] o Inr by simp
    from Batch_do_returns[OF assms, where ops = "upload_operations gen env (progress opts') bs sz"
        and st = "initial :: 'a transfer"]
    obtain order r' where
      "Batch_do (Batch_new C (parallelism opts))
         (upload_operations gen env (progress opts') bs sz) order initial = Some r'"
      by blast
    with o Inr p have "\<exists>out. UploadResetableStreamToBlockBlob C gen env order sz opts = Some out"
      by (cases r'; cases "fst r'") (auto simp: UploadResetableStreamToBlockBlob_def Let_def)
    then show ?thesis by blast
  qed
qed

lemma stream_returns:
  assumes "0 < bufferSize" and "0 < maxBuffers"
  shows "\<exists>order out.
           UploadStreamToBlockBlob gen env order streamLength bufferSize maxBuffers opts = Some out"
proof -
  have "0 < real maxBuffers / 4 * 3" using assms(2) by simp
  then have "0 < nat \<lceil>real maxBuffers / 4 * 3\<rceil>" by simp
  from Batch_do_returns[OF this, where st = "initial :: 'a transfer"
      and ops = "stream_handlers gen env (st_progress (stream_options opts)) streamLength bufferSize"]
  obtain order r' where
    "Batch_do (nat \<lceil>real maxBuffers / 4 * 3\<rceil>)
       (stream_handlers gen env (st_progress (stream_options opts)) streamLength bufferSize)
       order initial = Some r'"
    by blast
  with assms have "\<exists>out.
      UploadStreamToBlockBlob gen env order streamLength bufferSize maxBuffers opts = Some out"
    by (cases r'; cases "fst r'")
       (auto simp: UploadStreamToBlockBlob_def BufferScheduler_do_def Let_def)
  then show ?thesis by blast
qed

lemma download_returns:
  assumes "0 < Batch_new C (dl_parallelism opts)" and "0 < BLOB_DEFAULT_DOWNLOAD_BLOCK_BYTES C"
  shows "\<exists>order out. DownloadBlobToBuffer C env order offset count bufferLength opts = Some out"
proof -
  obtain opts' r where o: "download_options C offset count opts = (opts', r)"
    by (cases "download_options C offset count opts")
  show ?thesis
  proof (cases r)
    case (Inl e)
    with o show ?thesis by (simp add: DownloadBlobToBuffer_def)
  next
    case (Inr bs)
    from download_options_fields(2)[of C offset count opts bs] o Inr
    have p: "dl_parallelism opts' = dl_parallelism opts"
      and b: "bs = (if dl_blockSize opts = None \<or> dl_blockSize opts = Some 0
             then BLOB_DEFAULT_DOWNLOAD_BLOCK_BYTES C else the (dl_blockSize opts))"
      by simp_all
    have bs: "0 < bs"
      using o Inr assms(2)
      by (auto simp: download_options_def Let_def split: if_split_asm option.split_asm)
    obtain cs r' where rc: "resolve_count env offset count bufferLength = (cs, r')"
      by (cases "resolve_count env offset count bufferLength")
    show ?thesis
    proof (cases r')
      case (Inl e)
      with o \<open>r = Inr bs\<close> rc show ?thesis by (simp add: DownloadBlobToBuffer_def)
    next
      case (Inr count')
      from Batch_do_returns[OF assms(1), where st = "initial\<lparr> calls := cs \<rparr>"
          and ops = "download_operations env (dl_progress opts') bs offset count'"]
      obtain order r'' where
        "Batch_do (Batch_new C (dl_parallelism opts))
           (download_operations env (dl_progress opts') bs offset count') order
           (initial\<lparr> calls := cs \<rparr>) = Some r''"
        by blast
      with o \<open>r = Inr bs\<close> rc Inr p bs
      have "\<exists>out. DownloadBlobToBuffer C env order offset count bufferLength opts = Some out"
        by (cases r''; cases "fst r''") (auto simp: DownloadBlobToBuffer_def Let_def)
      then show ?thesis by blast
    qed
  qed
qed

section \<open>Downloads from offset 0\<close>

text \<open>
  For the offset 0 the comparison of line 234 is the right one: the regions of the
  buffer split the interval from 0 to the resolved count, their number is
  \<open>\<lceil>count / blockSize\<rceil>\<close>, and \<^verbatim>\<open>transferProgress\<close> ends at the count.
\<close>

lemma tiles_union:
  "tiles a b rs \<Longrightarrow> (\<Union>(s, e) \<in> set rs. {s..<e}) = {a..<b} \<and> a \<le> b"
proof (induction rs arbitrary: a)
  case Nil
  then show ?case by simp
next
  case (Cons r rs)
  obtain s e where r: "r = (s, e)" by (cases r)
  with Cons.prems have s: "s = a" and lt: "a < e" and t: "tiles e b rs" by simp_all
  from Cons.IH[OF t] have u: "(\<Union>(s, e) \<in> set rs. {s..<e}) = {e..<b}" and le: "e \<le> b"
    by simp_all
  have "{a..<e} \<union> {e..<b} = {a..<b}" using lt le by auto
  then show ?case using r s u lt le by simp
qed

lemma tiles_disjoint:
  "tiles a b rs \<Longrightarrow> i < j \<Longrightarrow> j < length rs \<Longrightarrow>
     {fst (rs ! i)..<snd (rs ! i)} \<inter> {fst (rs ! j)..<snd (rs ! j)} = {}"
proof (induction rs arbitrary: a i j)
  case Nil
  then show ?case by simp
next
  case (Cons r rs)
  obtain s e where r: "r = (s, e)" by (cases r)
  with Cons.prems have s: "s = a" and lt: "a < e" and t: "tiles e b rs" by simp_all
  obtain j' where j: "j = Suc j'" using Cons.prems(2) by (cases j) auto
  show ?case
  proof (cases i)
    case 0
    have "rs ! j' \<in> set rs" using Cons.prems(3) j by simp
    then have "{fst (rs ! j')..<snd (rs ! j')} \<subseteq> (\<Union>(s, e) \<in> set rs. {s..<e})"
      by (auto simp: case_prod_unfold)
    then have "{fst (rs ! j')..<snd (rs ! j')} \<subseteq> {e..<b}" using tiles_union[OF t] by simp
    then show ?thesis using 0 j r by auto
  next
    case (Suc i')
    then show ?thesis using Cons.IH[OF t, of i' j'] Cons.prems j by simp
  qed
qed

lemma tiles_nonempty:
  "tiles a b rs \<Longrightarrow> \<forall>(s, e) \<in> set rs. s < e"
proof (induction rs arbitrary: a)
  case Nil
  then show ?case by simp
next
  case (Cons r rs)
  obtain s e where r: "r = (s, e)" by (cases r)
  with Cons.prems have "a < e" "s = a" "tiles e b rs" by simp_all
  with Cons.IH r show ?case by auto
qed

lemma tiles_sum:
  "tiles a b rs \<Longrightarrow> (\<Sum>(s, e) \<leftarrow> rs. e - s) = b - a"
proof (induction rs arbitrary: a)
  case Nil
  then show ?case by simp
next
  case (Cons r rs)
  obtain s e where r: "r = (s, e)" by (cases r)
  with Cons.prems have "s = a" "tiles e b rs" by simp_all
  with Cons.IH r show ?case by simp
qed

lemma offsets_tiles:
  "0 < bs \<Longrightarrow> off \<le> count \<Longrightarrow>
     tiles off count (map (\<lambda>off. (off, chunkEnd bs count off)) (offsets off count bs))"
proof (induction off count bs rule: offsets.induct)
  case (1 off stop bs)
  show ?case
  proof (cases "off < stop")
    case True
    show ?thesis
    proof (cases "off + bs < stop")
      case True
      with 1 \<open>off < stop\<close> show ?thesis
        by (subst offsets.simps) (simp add: chunkEnd_def)
    next
      case False
      then have "offsets (off + bs) stop bs = []" by (subst offsets.simps) simp
      with 1 \<open>off < stop\<close> False show ?thesis
        by (subst offsets.simps) (simp add: chunkEnd_def)
    qed
  next
    case False
    with 1 show ?thesis by (subst offsets.simps) simp
  qed
qed

lemma offsets_length:
  "0 < bs \<Longrightarrow> off \<le> stop \<Longrightarrow>
     int (length (offsets off stop bs)) = \<lceil>real_of_int (stop - off) / real_of_int bs\<rceil>"
proof (induction off stop bs rule: offsets.induct)
  case (1 off stop bs)
  show ?case
  proof (cases "off < stop")
    case True
    show ?thesis
    proof (cases "off + bs \<le> stop")
      case le: True
      have "real_of_int (stop - off) / real_of_int bs
              = real_of_int (stop - (off + bs)) / real_of_int bs + 1"
        using 1(2) by (simp add: field_simps)
      then have "\<lceil>real_of_int (stop - off) / real_of_int bs\<rceil>
                   = \<lceil>real_of_int (stop - (off + bs)) / real_of_int bs\<rceil> + 1"
        by (simp only: ceiling_add_one)
      with 1 True le show ?thesis by (subst offsets.simps) simp
    next
      case False
      then have e: "offsets (off + bs) stop bs = []" by (subst offsets.simps) simp
      have "0 < real_of_int (stop - off) / real_of_int bs" using True 1(2) by simp
      moreover have "real_of_int (stop - off) / real_of_int bs \<le> 1"
        using False 1(2) by (simp add: field_simps)
      ultimately have "\<lceil>real_of_int (stop - off) / real_of_int bs\<rceil> = 1"
        by (simp add: ceiling_eq_iff)
      with True 1(2) e show ?thesis by (subst offsets.simps) simp
    qed
  next
    case False
    with 1 have "stop = off" by simp
    then show ?thesis by (subst offsets.simps) simp
  qed
qed

lemma download_operations_nth:
  "k < length (offsets offset (offset + count) bs) \<Longrightarrow>
   download_operations env prog bs offset count ! k =
     download_operation env prog bs offset count (k, offsets offset (offset + count) bs ! k)"
  by (simp add: download_operations_def nth_enumerate_eq)

lemma download_batch_state:
  fixes env :: "('id, 'r) remote" and prog bs offset count
  defines "ops \<equiv> download_operations env prog bs offset count"
    and "offs \<equiv> offsets offset (offset + count) bs"
  assumes r: "run ops order (Batch_start limit ops ((initial :: 'id transfer)\<lparr> calls := cs \<rparr>)) = Some b"
  shows "calls (shared b) =
           cs @ map (\<lambda>k. Download (offs ! k) (chunkEnd bs count (offs ! k) - offs ! k + 1))
                  [0..<cursor b]"
    and "set (regions (shared b)) =
           (\<lambda>k. (offs ! k - offset, chunkEnd bs count (offs ! k) - offset)) ` completed ops b"
    and "length (regions (shared b)) = card (completed ops b)"
    and "transferProgress (shared b) =
           (\<Sum>k \<in> completed ops b. chunkEnd bs count (offs ! k) - offs ! k)"
proof -
  define P where "P b \<longleftrightarrow> tracked ops b
      \<and> calls (shared b) =
           cs @ map (\<lambda>k. Download (offs ! k) (chunkEnd bs count (offs ! k) - offs ! k + 1))
                  [0..<cursor b]
      \<and> set (regions (shared b)) =
           (\<lambda>k. (offs ! k - offset, chunkEnd bs count (offs ! k) - offset)) ` completed ops b
      \<and> length (regions (shared b)) = card (completed ops b)
      \<and> transferProgress (shared b) =
           (\<Sum>k \<in> completed ops b. chunkEnd bs count (offs ! k) - offs ! k)"
    for b :: "'id transfer Batch"
  have init: "P \<lparr> concurrencyLimit = limit, cursor = 0, active = [], firstError = None,
                   shared = initial\<lparr> calls := cs \<rparr> \<rparr>"
    by (simp add: P_def tracked_initial initial_def completed_def)
  have start: "P (start_next ops b)" if "P b" "startable ops b" for b
  proof -
    have c: "cursor b < length offs"
      using that(2) by (simp add: startable_def ops_def offs_def)
    have op: "ops ! cursor b = download_operation env prog bs offset count (cursor b, offs ! cursor b)"
      unfolding ops_def offs_def using c[unfolded offs_def] by (rule download_operations_nth)
    have t: "tracked ops (start_next ops b)" using that by (simp add: P_def tracked_start)
    have cm: "completed ops (start_next ops b) = completed ops b"
      using that(1) by (simp add: P_def completed_start)
    show ?thesis
      unfolding P_def cm using t that(1)
      by (simp add: P_def start_next_def op download_operation_def)
  qed
  have fin: "P (finish ops i b)" if "P b" "i \<in> set (active b)" for b i
  proof -
    have tr: "tracked ops b" using that(1) by (simp add: P_def)
    have i: "i < length offs"
      using tr that(2) by (auto simp: tracked_def ops_def offs_def)
    have op: "ops ! i = download_operation env prog bs offset count (i, offs ! i)"
      unfolding ops_def offs_def using i[unfolded offs_def] by (rule download_operations_nth)
    have t: "tracked ops (finish ops i b)" using tr that(2) by (rule tracked_finish)
    note cm = completed_finish[OF tr that(2)]
    have cur: "cursor (finish ops i b) = cursor b" by simp
    show ?thesis
    proof (cases "settles (ops ! i)")
      case None
      then have sh: "shared (finish ops i b) = fst (resume_op (ops ! i) (shared b))"
        by (simp add: finish_shared)
      show ?thesis
        unfolding P_def cur sh cm(1) using t that(1) None cm(2)
        by (simp add: P_def op download_operation_def Let_def finite_completed)
    next
      case (Some e)
      then have sh: "shared (finish ops i b) = shared b"
        by (simp add: finish_shared)
      show ?thesis
        unfolding P_def cur sh cm(1) using t that(1) Some
        by (simp add: P_def)
    qed
  qed
  have "P (Batch_start limit ops (initial\<lparr> calls := cs \<rparr>))"
    using init start by (rule Batch_start_keeps)
  with r have "P b" using start fin by (rule run_keeps)
  then show "calls (shared b) =
           cs @ map (\<lambda>k. Download (offs ! k) (chunkEnd bs count (offs ! k) - offs ! k + 1))
                  [0..<cursor b]"
    and "set (regions (shared b)) =
           (\<lambda>k. (offs ! k - offset, chunkEnd bs count (offs ! k) - offset)) ` completed ops b"
    and "length (regions (shared b)) = card (completed ops b)"
    and "transferProgress (shared b) =
           (\<Sum>k \<in> completed ops b. chunkEnd bs count (offs ! k) - offs ! k)"
    by (simp_all add: P_def)
qed

lemma download_success_end:
  assumes d: "DownloadBlobToBuffer C env order offset count bufferLength opts = Some out"
    and ok: "result out = Inr ()"
  shows "\<exists>opts' bs cs count' b.
           download_options C offset count opts = (opts', Inr bs)
         \<and> resolve_count env offset count bufferLength = (cs, Inr count')
         \<and> \<not> (bs \<le> 0 \<and> 0 < count')
         \<and> run (download_operations env (dl_progress opts') bs offset count') order
               (Batch_start (Batch_new C (dl_parallelism opts'))
                  (download_operations env (dl_progress opts') bs offset count')
                  (initial\<lparr> calls := cs \<rparr>)) = Some b
         \<and> finished (download_operations env (dl_progress opts') bs offset count') b
         \<and> firstError b = None \<and> final out = shared b"
  using d ok
  by (auto simp: DownloadBlobToBuffer_def Batch_do_def Let_def
           split: prod.split_asm sum.split_asm option.split_asm if_split_asm)

lemma download_from_start:
  assumes d: "DownloadBlobToBuffer C env order 0 count bufferLength opts = Some out"
    and ok: "result out = Inr ()"
  shows "\<exists>bs count'.
           snd (download_options C 0 count opts) = Inr bs
         \<and> snd (resolve_count env 0 count bufferLength) = Inr count'
         \<and> set (regions (final out)) =
             set (map (\<lambda>off. (off, chunkEnd bs count' off)) (offsets 0 count' bs))
         \<and> length (regions (final out)) = length (offsets 0 count' bs)
         \<and> tiles 0 count' (map (\<lambda>off. (off, chunkEnd bs count' off)) (offsets 0 count' bs))
         \<and> transferProgress (final out) = count'
         \<and> (0 < count' \<longrightarrow>
              int (length (offsets 0 count' bs)) = \<lceil>real_of_int count' / real_of_int bs\<rceil>)"
proof -
  from download_success_end[OF d ok] obtain opts' bs cs count' b where
    o: "download_options C 0 count opts = (opts', Inr bs)"
    and rc: "resolve_count env 0 count bufferLength = (cs, Inr count')"
    and bsok: "\<not> (bs \<le> 0 \<and> 0 < count')"
    and r: "run (download_operations env (dl_progress opts') bs 0 count') order
               (Batch_start (Batch_new C (dl_parallelism opts'))
                  (download_operations env (dl_progress opts') bs 0 count')
                  (initial\<lparr> calls := cs \<rparr>)) = Some b"
    and f: "finished (download_operations env (dl_progress opts') bs 0 count') b"
    and fe: "firstError b = None" and fin: "final out = shared b"
    by blast
  let ?ops = "download_operations env (dl_progress opts') bs 0 count'"
  let ?offs = "offsets 0 count' bs"
  let ?R = "map (\<lambda>off. (off, chunkEnd bs count' off)) ?offs"
  have nonneg: "0 \<le> count'"
  proof -
    from download_options_cases[OF o] have "0 \<le> count" by simp
    then show ?thesis
      using rc by (auto simp: resolve_count_def Let_def split: if_split_asm sum.split_asm)
  qed
  have cm: "completed ?ops b = {..<length ?offs}"
    using finished_without_error(3)[OF tracked_run[OF r] f fe] by simp
  note st = download_batch_state[OF r, unfolded cm]
  have t: "tiles 0 count' ?R"
  proof (cases "0 < count'")
    case True
    with bsok have "0 < bs" by simp
    then show ?thesis using nonneg by (rule offsets_tiles)
  next
    case False
    with nonneg have z: "count' = 0" by simp
    have "offsets 0 0 bs = []" by (subst offsets.simps) simp
    then show ?thesis using z by simp
  qed
  have s: "set (regions (final out)) = set ?R"
  proof -
    have "set ?R = (\<lambda>k. (?offs ! k, chunkEnd bs count' (?offs ! k))) ` {..<length ?offs}"
      by (auto simp: in_set_conv_nth image_iff)
    then show ?thesis unfolding fin using st(2) by simp
  qed
  have l: "length (regions (final out)) = length ?offs"
    unfolding fin using st(3) by simp
  have p: "transferProgress (final out) = count'"
  proof -
    have "(\<Sum>k < length ?offs. chunkEnd bs count' (?offs ! k) - ?offs ! k)
            = sum_list (map (\<lambda>off. chunkEnd bs count' off - off) ?offs)"
      by (simp add: sum_list_sum_nth atLeast0LessThan)
    also have "\<dots> = (\<Sum>(s, e) \<leftarrow> ?R. e - s)" by (simp add: comp_def)
    also have "\<dots> = count' - 0" using t by (rule tiles_sum)
    finally show ?thesis unfolding fin using st(4) by simp
  qed
  have n: "0 < count' \<longrightarrow> int (length ?offs) = \<lceil>real_of_int count' / real_of_int bs\<rceil>"
  proof
    assume "0 < count'"
    with bsok have "0 < bs" by simp
    from offsets_length[OF this, of 0 count'] nonneg show
      "int (length ?offs) = \<lceil>real_of_int count' / real_of_int bs\<rceil>" by simp
  qed
  from o rc s l t p n show ?thesis by auto
qed

section \<open>What an accepted upload plan satisfies\<close>

text \<open>
  A size above the limit of a single upload call: the call is rejected by the checks of
  the options or by the check of the number of blocks, each before any remote call, or
  the number of blocks is within \<open>BLOCK_BLOB_MAX_BLOCKS\<close> and the block size is at most
  \<open>BLOCK_BLOB_MAX_UPLOAD_BLOB_BYTES\<close> (a block size the caller gave) or the computed one.
\<close>

lemma upload_batch_error:
  assumes "Batch_do limit (upload_operations gen env prog bs sz) order st = Some (Some e, st')"
  shows "(\<exists>m. e = RemoteError m) \<or> (\<exists>m. e = CallbackError m)"
proof -
  from batch_error_settles[OF assms] obtain k
    where k: "k < nat (numBlocks_of sz bs)"
      and d: "settles (upload_operations gen env prog bs sz ! k) = Some e \<or>
           (\<exists>st. snd (resume_op (upload_operations gen env prog bs sz ! k) st) = Some e)"
    by auto
  from d show ?thesis
  proof
    assume "settles (upload_operations gen env prog bs sz ! k) = Some e"
    then show ?thesis using k by (auto simp: upload_settles)
  next
    assume "\<exists>st. snd (resume_op (upload_operations gen env prog bs sz ! k) st) = Some e"
    then obtain st where
      "snd (resume_op (upload_operations gen env prog bs sz ! k) st) = Some e"
      by blast
    from upload_throws[OF k this] show ?thesis by blast
  qed
qed

lemma upload_plan_bounds:
  assumes up: "UploadResetableStreamToBlockBlob C gen env order sz opts = Some out"
    and big: "BLOCK_BLOB_MAX_UPLOAD_BLOB_BYTES C < sz"
  shows "(\<exists>e. snd (upload_options C sz opts) = Inl e \<and> result out = Inl e \<and> final out = initial)
       \<or> (\<exists>bs. snd (upload_options C sz opts) = Inr bs
              \<and> BLOCK_BLOB_MAX_BLOCKS C < numBlocks_of sz bs
              \<and> result out = Inl TooManyBlocks \<and> final out = initial)
       \<or> (\<exists>bs. snd (upload_options C sz opts) = Inr bs
              \<and> numBlocks_of sz bs \<le> BLOCK_BLOB_MAX_BLOCKS C
              \<and> bs \<le> max (BLOCK_BLOB_MAX_UPLOAD_BLOB_BYTES C)
                                    (max \<lceil>real_of_int sz / real_of_int (BLOCK_BLOB_MAX_BLOCKS C)\<rceil>
                                         (BLOB_DEFAULT_DOWNLOAD_BLOCK_BYTES C))
              \<and> result out \<noteq> Inl TooManyBlocks
              \<and> (\<exists>m. result out = Inl (RemoteError m) \<or> result out = Inl (CallbackError m)
                    \<or> result out = rejected (commitBlockList_result env (blockList (final out)))))"
proof -
  obtain opts' r where o: "upload_options C sz opts = (opts', r)"
    by (cases "upload_options C sz opts")
  show ?thesis
  proof (cases r)
    case (Inl e)
    with up o show ?thesis by (auto simp: UploadResetableStreamToBlockBlob_def)
  next
    case (Inr bs)
    show ?thesis
    proof (cases "BLOCK_BLOB_MAX_BLOCKS C < numBlocks_of sz bs")
      case True
      with up o Inr big show ?thesis
        by (auto simp: UploadResetableStreamToBlockBlob_def Let_def)
    next
      case False
      have b: "bs \<le> max (BLOCK_BLOB_MAX_UPLOAD_BLOB_BYTES C)
                                    (max \<lceil>real_of_int sz / real_of_int (BLOCK_BLOB_MAX_BLOCKS C)\<rceil>
                                         (BLOB_DEFAULT_DOWNLOAD_BLOCK_BYTES C))"
      proof (cases "blockSize opts = None \<or> blockSize opts = Some 0")
        case True
        have a: "snd (upload_options C sz opts) = Inr bs" using o Inr by simp
        from upload_options_unset(2)[OF True a] big
        have "bs = max \<lceil>real_of_int sz / real_of_int (BLOCK_BLOB_MAX_BLOCKS C)\<rceil>
                 (BLOB_DEFAULT_DOWNLOAD_BLOCK_BYTES C)" by simp
        then show ?thesis by (simp add: max_def)
      next
        case False
        then obtain b where b: "blockSize opts = Some b" "b \<noteq> 0"
          by (cases "blockSize opts") auto
        have a: "snd (upload_options C sz opts) = Inr bs" using o Inr by simp
        have o1: "(if blockSize opts = None \<or> blockSize opts = Some 0
             then opts\<lparr> blockSize := Some 0 \<rparr> else opts) = opts"
          using b by simp
        have "0 \<le> b \<and> b \<le> BLOCK_BLOB_MAX_UPLOAD_BLOB_BYTES C"
          using a b unfolding upload_options_def o1 by (simp add: Let_def split: if_split_asm)
        then show ?thesis using upload_options_given(2)[OF b a] by (simp add: max_def)
      qed
      have n: "numBlocks_of sz bs \<le> BLOCK_BLOB_MAX_BLOCKS C" using False by simp
      from upload_chunked_end[OF up o[unfolded Inr] big n] obtain bt where
        out: "out = (case firstError bt of
                 Some e \<Rightarrow> \<lparr> result = Inl e, options_after = opts', final = shared bt \<rparr>
               | None \<Rightarrow> \<lparr> result = rejected (commitBlockList_result env (blockList (shared bt))),
                           options_after = opts',
                           final = (shared bt)\<lparr> calls := calls (shared bt) @
                                          [CommitBlockList (blockList (shared bt))] \<rparr> \<rparr>)"
        and r: "run (upload_operations gen env (progress opts') bs sz) order
              (Batch_start (Batch_new C (parallelism opts'))
                 (upload_operations gen env (progress opts') bs sz) initial) = Some bt"
        by blast
      have res: "(\<exists>m. result out = Inl (RemoteError m)) \<or> (\<exists>m. result out = Inl (CallbackError m))
                 \<or> result out = rejected (commitBlockList_result env (blockList (final out)))"
      proof (cases "firstError bt")
        case None
        with out show ?thesis by simp
      next
        case (Some e)
        from finished_with_error[OF tracked_run[OF r] Some] obtain k
          where k: "k < nat (numBlocks_of sz bs)"
            and d: "settles (upload_operations gen env (progress opts') bs sz ! k) = Some e \<or>
                 (\<exists>st. snd (resume_op (upload_operations gen env (progress opts') bs sz ! k) st)
                        = Some e)"
          by auto
        from d have "(\<exists>m. e = RemoteError m) \<or> (\<exists>m. e = CallbackError m)"
        proof
          assume "settles (upload_operations gen env (progress opts') bs sz ! k) = Some e"
          then show ?thesis using k by (auto simp: upload_settles)
        next
          assume "\<exists>st. snd (resume_op (upload_operations gen env (progress opts') bs sz ! k) st)
                        = Some e"
          then obtain st where
            "snd (resume_op (upload_operations gen env (progress opts') bs sz ! k) st) = Some e"
            by blast
          from upload_throws[OF k this] show ?thesis by blast
        qed
        with out Some show ?thesis by auto
      qed
      have nt: "result out \<noteq> Inl TooManyBlocks"
        using res by (auto simp: rejected_def split: sum.split_asm)
      from o Inr n b res nt show ?thesis by auto
    qed
  qed
qed

section \<open>Where the code departs from the claims\<close>

text \<open>
  Claim C4. The code at a block size of 200000000 bytes, above the 104857600 bytes of
  \<open>BLOCK_BLOB_MAX_STAGE_BLOCK_BYTES\<close>: line 97 compares the block size with
  \<open>BLOCK_BLOB_MAX_UPLOAD_BLOB_BYTES\<close>, so the upload is accepted and stages a block of
  200000000 bytes.
\<close>

theorem C4_block_above_stage_limit_accepted:
  "BLOCK_BLOB_MAX_STAGE_BLOCK_BYTES service_constants < 200000000
   \<and> UploadResetableStreamToBlockBlob service_constants (\<lambda>i. i) all_succeed [0, 1] 300000000
       (no_upload_options\<lparr> blockSize := Some 200000000 \<rparr>) =
     Some \<lparr> result = Inr ''committed'',
            options_after = \<lparr> blockSize = Some 200000000, parallelism = None, progress = False,
               blobHTTPHeaders = Some [], blobAccessConditions = Some empty_conditions \<rparr>,
            final = \<lparr> blockList = [0, 1], blockNum = 0, transferProgress = 300000000,
               events = [],
               calls = [StageBlock 0 0 200000000, StageBlock 1 200000000 100000000,
                        CommitBlockList [0, 1]],
               regions = [] \<rparr> \<rparr>"
  by code_simp

text \<open>
  Claim C3. The code at offset 2, count 6, block size 4, all ranged reads succeeding:
  line 234 compares \<open>off + blockSize\<close> with \<open>count\<close>, not with \<open>offset + count\<close>, so the
  two regions of the buffer are \<open>[0, 4)\<close> and the empty \<open>[4, 4)\<close>, and the bytes 4 and 5 of
  the 6 requested are never written. From offset 0 the regions do split the buffer
  (\<open>download_from_start\<close>).
\<close>

theorem C3_regions_miss_the_end_for_positive_offset:
  "DownloadBlobToBuffer service_constants all_succeed [0, 1] 2 6 6
       (no_download_options\<lparr> dl_blockSize := Some 4 \<rparr>) =
     Some \<lparr> result = Inr (),
            options_after = \<lparr> dl_blockSize = Some 4, dl_parallelism = None,
               dl_progress = False, dl_blobAccessConditions = Some empty_conditions \<rparr>,
            final = \<lparr> blockList = [], blockNum = 0, transferProgress = 4, events = [],
               calls = [Download 2 5, Download 6 1],
               regions = [(0, 4), (4, 4)] \<rparr> \<rparr>"
  by code_simp

text \<open>
  Claim C8. The code at offset 0, count 0, against a blob of 8 bytes, block size 4:
  the count is resolved to 8, two ranged reads are issued and their regions of the
  buffer are \<open>[0, 4)\<close> and \<open>[4, 8)\<close>, but each ranged read asks for
  \<open>chunkEnd - off + 1 = 5\<close> bytes (line 237): the bytes \<open>[0, 5)\<close> and \<open>[4, 9)\<close> of the blob.
\<close>

theorem C8_ranged_reads_ask_one_byte_more:
  "DownloadBlobToBuffer service_constants all_succeed [0, 1] 0 0 8
       (no_download_options\<lparr> dl_blockSize := Some 4 \<rparr>) =
     Some \<lparr> result = Inr (),
            options_after = \<lparr> dl_blockSize = Some 4, dl_parallelism = None,
               dl_progress = False, dl_blobAccessConditions = Some empty_conditions \<rparr>,
            final = \<lparr> blockList = [], blockNum = 0, transferProgress = 8, events = [],
               calls = [GetProperties, Download 0 5, Download 4 5],
               regions = [(0, 4), (4, 8)] \<rparr> \<rparr>"
  by code_simp

text \<open>
  Claim C9. The code at offset 2, count 6, block size 4, all ranged reads succeeding,
  the second completing first: the progress callback sees 0 and then 4 of 6 bytes, and
  \<^verbatim>\<open>transferProgress\<close> ends at 4, not at the count 6. For an upload the progress
  never decreases and ends at the size (\<open>upload_progress_monotone\<close>,
  \<open>upload_progress_total\<close>), and so does the progress of a download from offset 0
  (\<open>download_from_start\<close>).
\<close>

theorem C9_download_progress_short_of_count:
  "DownloadBlobToBuffer service_constants all_succeed [1, 0] 2 6 6
       (no_download_options\<lparr> dl_blockSize := Some 4, dl_progress := True \<rparr>) =
     Some \<lparr> result = Inr (),
            options_after = \<lparr> dl_blockSize = Some 4, dl_parallelism = None,
               dl_progress = True, dl_blobAccessConditions = Some empty_conditions \<rparr>,
            final = \<lparr> blockList = [], blockNum = 0, transferProgress = 4,
               events = [\<lparr> loadedBytes = 0, totalBytes = Some 6 \<rparr>,
                         \<lparr> loadedBytes = 4, totalBytes = Some 6 \<rparr>],
               calls = [Download 2 5, Download 6 1],
               regions = [(4, 4), (0, 4)] \<rparr> \<rparr>"
  by code_simp

end
